theory Spec2Isabelle
  imports Complex_Main "HOL-Library.AList"
begin

section \<open>Conventions of the embedding\<close>

text \<open>
  The development embeds the text and image editing engine of the editor
  (\<^verbatim>\<open>text-edit.js\<close>, the last revision held in \<^verbatim>\<open>src/unnamed/part_002\<close>).

  \<^item> JavaScript numbers are modelled as \<^typ>\<open>real\<close>: \<open>+\<close>, \<open>*\<close> and \<open>/\<close> are the exact
    operations, \<^verbatim>\<open>Math.floor\<close> is \<^const>\<open>floor\<close> and \<^verbatim>\<open>Math.round\<close> is rounding half up.
    Rounding errors of IEEE doubles, \<^verbatim>\<open>NaN\<close> and the infinities are outside the model.
  \<^item> JavaScript strings are modelled as \<^typ>\<open>string\<close>, one \<^typ>\<open>char\<close> per code unit,
    restricted to the code units below 256.
  \<^item> Calls into the PDF library and the canvas are recorded as values: a commit returns
    the list of draw calls it issued, in order.
\<close>

subsection \<open>Numbers and strings\<close>

definition js_round :: "real \<Rightarrow> int" where
  "js_round x = \<lfloor>x + 1 / 2\<rfloor>"

text \<open>The white space that \<^verbatim>\<open>String.prototype.trim\<close> strips, among the code units below 256:
  tab, line feed, vertical tab, form feed, carriage return, space and no-break space.\<close>

definition js_whitespace :: "char \<Rightarrow> bool" where
  "js_whitespace c = (of_char c \<in> {9, 10, 11, 12, 13, 32, 160 :: nat})"

text \<open>\<^verbatim>\<open>s.trim()\<close> is truthy exactly when \<open>s\<close> has a character that is not white space.\<close>

definition trim_truthy :: "string \<Rightarrow> bool" where
  "trim_truthy s = (\<exists>c \<in> set s. \<not> js_whitespace c)"

section \<open>Layout reconstruction\<close>

subsection \<open>Mapped text items\<close>

text \<open>The objects built by the \<^verbatim>\<open>items.map\<close> at the head of \<^verbatim>\<open>groupIntoLines\<close>.\<close>

record mapped_item =
  str :: string
  fontName :: string
  left :: real
  top' :: real
  width :: real
  height :: real
  fontSize :: real
  pdfX :: real
  pdfY :: real
  pdfFontSize :: real

subsection \<open>Deduplication (\<^verbatim>\<open>groupIntoLines\<close>, the loop over \<^verbatim>\<open>mapped\<close>)\<close>

text \<open>
  The key is the template string \<^verbatim>\<open>`${Math.round(item.left)},${Math.round(item.top)}`\<close>;
  two such strings are equal exactly when both rounded numbers are, so the key is modelled
  as the pair of integers.
\<close>

definition pos_key :: "mapped_item \<Rightarrow> int \<times> int" where
  "pos_key item = (js_round (left item), js_round (top' item))"

text \<open>One iteration: \<open>deduped\<close> is the array, \<open>seen\<close> the \<^verbatim>\<open>Map\<close> from key to index.\<close>

definition dedup_step ::
  "mapped_item list \<times> (int \<times> int \<rightharpoonup> nat) \<Rightarrow> mapped_item \<Rightarrow> mapped_item list \<times> (int \<times> int \<rightharpoonup> nat)" where
  "dedup_step st item =
     (let deduped = fst st; seen = snd st in
      if \<not> trim_truthy (str item) then st
      else (case seen (pos_key item) of
              Some i \<Rightarrow> (deduped[i := item], seen)
            | None \<Rightarrow> (deduped @ [item], seen(pos_key item \<mapsto> length deduped))))"

definition dedupe :: "mapped_item list \<Rightarrow> mapped_item list" where
  "dedupe mapped = fst (foldl dedup_step ([], Map.empty) mapped)"

subsection \<open>Column split detection (\<^verbatim>\<open>detectColumnSplit\<close>)\<close>

definition NUM_BUCKETS :: nat where
  "NUM_BUCKETS = 100"

definition bucketWidth :: "real \<Rightarrow> real" where
  "bucketWidth pageWidth = pageWidth / real NUM_BUCKETS"

definition yBand :: "mapped_item \<Rightarrow> int" where
  "yBand item = js_round (top' item / 5) * 5"

definition bucket_start :: "real \<Rightarrow> mapped_item \<Rightarrow> int" where
  "bucket_start pageWidth item = max 0 \<lfloor>left item / bucketWidth pageWidth\<rfloor>"

definition bucket_end :: "real \<Rightarrow> mapped_item \<Rightarrow> int" where
  "bucket_end pageWidth item =
     min (int NUM_BUCKETS - 1) \<lfloor>(left item + width item) / bucketWidth pageWidth\<rfloor>"

text \<open>
  One iteration of the loop over \<^verbatim>\<open>mapped\<close>: white-space items are skipped; otherwise the
  band is added to every bucket \<open>b\<close> with \<open>start \<le> b \<le> end\<close>. Since \<open>0 \<le> start\<close> and
  \<open>end \<le> 99\<close>, the inner loop never leaves the array.
\<close>

definition add_item :: "real \<Rightarrow> int set list \<Rightarrow> mapped_item \<Rightarrow> int set list" where
  "add_item pageWidth sets item =
     (if \<not> trim_truthy (str item) then sets
      else map (\<lambda>b. if bucket_start pageWidth item \<le> int b \<and> int b \<le> bucket_end pageWidth item
                      then insert (yBand item) (sets ! b) else sets ! b)
               [0..<length sets])"

definition bucketYSets :: "mapped_item list \<Rightarrow> real \<Rightarrow> int set list" where
  "bucketYSets mapped pageWidth = foldl (add_item pageWidth) (replicate NUM_BUCKETS {}) mapped"

definition histogram :: "mapped_item list \<Rightarrow> real \<Rightarrow> nat list" where
  "histogram mapped pageWidth = map card (bucketYSets mapped pageWidth)"

text \<open>The four loop variables of the gap search.\<close>

record gap_state =
  bestStart :: int
  bestEnd :: int
  bestWidth :: int
  gapStart :: int

definition gap_init :: gap_state where
  "gap_init = \<lparr>bestStart = - 1, bestEnd = - 1, bestWidth = 0, gapStart = - 1\<rparr>"

definition gap_step :: "nat list \<Rightarrow> nat \<Rightarrow> gap_state \<Rightarrow> nat \<Rightarrow> gap_state" where
  "gap_step hist emptyThreshold g b =
     (if hist ! b \<le> emptyThreshold then
        (if gapStart g = - 1 then g\<lparr>gapStart := int b\<rparr> else g)
      else if gapStart g \<noteq> - 1 then
        (let w = int b - gapStart g in
         if w > bestWidth g
         then \<lparr>bestStart = gapStart g, bestEnd = int b, bestWidth = w, gapStart = - 1\<rparr>
         else g\<lparr>gapStart := - 1\<rparr>)
      else g)"

definition gap_close :: "nat \<Rightarrow> gap_state \<Rightarrow> gap_state" where
  "gap_close maxB g =
     (if gapStart g \<noteq> - 1 then
        (let w = int maxB - gapStart g in
         if w > bestWidth g
         then g\<lparr>bestStart := gapStart g, bestEnd := int maxB, bestWidth := w\<rparr>
         else g)
      else g)"

definition minB :: nat where
  "minB = nat \<lfloor>(30 / 100 :: real) * real NUM_BUCKETS\<rfloor>"

definition maxB :: nat where
  "maxB = nat \<lfloor>(70 / 100 :: real) * real NUM_BUCKETS\<rfloor>"

definition emptyThreshold :: "nat \<Rightarrow> nat" where
  "emptyThreshold maxCount = max 2 (nat \<lfloor>real maxCount * (15 / 100)\<rfloor>)"

text \<open>The result is \<open>None\<close> for \<^verbatim>\<open>null\<close> and \<open>Some x\<close> for the split coordinate.\<close>

definition detectColumnSplit :: "mapped_item list \<Rightarrow> real \<Rightarrow> real option" where
  "detectColumnSplit mapped pageWidth =
     (let hist = histogram mapped pageWidth;
          maxCount = Max (set hist)
      in if maxCount = 0 then None
         else
           let g = gap_close maxB
                     (foldl (gap_step hist (emptyThreshold maxCount)) gap_init [minB..<Suc maxB])
           in if bestWidth g < 3 then None
              else
                let leftContent = sum_list (take (nat (bestStart g)) hist);
                    rightContent = sum_list (drop (nat (bestEnd g)) hist)
                in if leftContent < 5 \<or> rightContent < 5 then None
                   else Some ((real_of_int (bestStart g + bestEnd g) / 2) * bucketWidth pageWidth))"

subsection \<open>Auxiliary notions for the layout proofs\<close>

text \<open>\<open>covers pageWidth item b\<close>: the item is not white space and the inner loop of
  \<^verbatim>\<open>detectColumnSplit\<close> reaches bucket \<open>b\<close> for it.\<close>

definition covers :: "real \<Rightarrow> mapped_item \<Rightarrow> nat \<Rightarrow> bool" where
  "covers pageWidth item b =
     (trim_truthy (str item) \<and> bucket_start pageWidth item \<le> int b \<and> int b \<le> bucket_end pageWidth item)"

text \<open>Invariant of the gap search before bucket \<open>b\<close> is inspected.\<close>

definition gap_inv :: "nat \<Rightarrow> gap_state \<Rightarrow> bool" where
  "gap_inv b g =
     (((bestWidth g = 0 \<and> bestStart g = - 1 \<and> bestEnd g = - 1) \<or>
       (30 \<le> bestStart g \<and> bestStart g < bestEnd g \<and> bestEnd g \<le> 70 \<and>
        bestWidth g = bestEnd g - bestStart g)) \<and>
      (gapStart g = - 1 \<or> (30 \<le> gapStart g \<and> gapStart g < int b)))"

text \<open>The items of a list that are not white space and round to position \<open>k\<close>, in extraction order.\<close>

definition hits :: "int \<times> int \<Rightarrow> mapped_item list \<Rightarrow> mapped_item list" where
  "hits k xs = filter (\<lambda>x. trim_truthy (str x) \<and> pos_key x = k) xs"

text \<open>Invariant of the deduplication loop after the items \<open>xs\<close>: \<open>seen\<close> maps exactly the keys
  of \<open>deduped\<close> to their indices, and each entry is the last item of \<open>xs\<close> at its position.\<close>

definition dedup_inv :: "mapped_item list \<Rightarrow> mapped_item list \<times> (int \<times> int \<rightharpoonup> nat) \<Rightarrow> bool" where
  "dedup_inv xs st =
     ((\<forall>k i. snd st k = Some i \<longleftrightarrow> (i < length (fst st) \<and> pos_key (fst st ! i) = k)) \<and>
      (\<forall>k. snd st k = None \<longleftrightarrow> hits k xs = []) \<and>
      (\<forall>k i. snd st k = Some i \<longrightarrow> fst st ! i = last (hits k xs)))"

subsection \<open>Synthetic pages\<close>

text \<open>A run with text \<open>x\<close> at \<open>(l, t)\<close> of width \<open>w\<close>.\<close>

definition fixture_run :: "real \<Rightarrow> real \<Rightarrow> real \<Rightarrow> mapped_item" where
  "fixture_run l t w =
     \<lparr>str = ''x'', fontName = ''Helvetica'', left = l, top' = t, width = w, height = 10,
      fontSize = 10, pdfX = l, pdfY = t, pdfFontSize = 10\<rparr>"

text \<open>A page of width 600 with one run filling \<open>[0, 280]\<close> on each of \<open>nl\<close> bands and one run
  filling \<open>[360, 600]\<close> on each of \<open>nr\<close> bands; bands are 20 px apart.\<close>

definition two_column_fixture :: "nat \<Rightarrow> nat \<Rightarrow> mapped_item list" where
  "two_column_fixture nl nr =
     map (\<lambda>i. fixture_run 0 (20 * real i) 280) [0..<nl] @
     map (\<lambda>i. fixture_run 360 (20 * real i) 240) [0..<nr]"

text \<open>A page of width 600 with one run spanning \<open>[0, 600]\<close> on each of \<open>n\<close> bands.\<close>

definition uniform_fixture :: "nat \<Rightarrow> mapped_item list" where
  "uniform_fixture n = map (\<lambda>i. fixture_run 0 (20 * real i) 600) [0..<n]"

text \<open>Three runs in extraction order: the first and the last round to pixel \<open>(0, 0)\<close>.\<close>

definition dedup_example :: "mapped_item list" where
  "dedup_example =
     [(fixture_run 0 0 40)\<lparr>str := ''old''\<rparr>,
      (fixture_run 50 0 40)\<lparr>str := ''mid''\<rparr>,
      (fixture_run (2 / 10) (3 / 10) 45)\<lparr>str := ''new''\<rparr>]"

text \<open>A run whose text is a single space.\<close>

definition blank_run :: mapped_item where
  "blank_run = (fixture_run 0 0 10)\<lparr>str := '' ''\<rparr>"

section \<open>String helpers\<close>

text \<open>\<^verbatim>\<open>s.includes(sub)\<close>: \<open>sub\<close> occurs in \<open>s\<close> as a contiguous substring.\<close>

fun starts_with :: "string \<Rightarrow> string \<Rightarrow> bool" where
  "starts_with s [] = True"
| "starts_with [] (c # cs) = False"
| "starts_with (d # ds) (c # cs) = (d = c \<and> starts_with ds cs)"

fun js_includes :: "string \<Rightarrow> string \<Rightarrow> bool" where
  "js_includes [] sub = (sub = [])"
| "js_includes (c # cs) sub = (starts_with (c # cs) sub \<or> js_includes cs sub)"

text \<open>\<^verbatim>\<open>toLowerCase\<close> on the code units below 128: the letters \<open>A\<close> to \<open>Z\<close> are mapped.\<close>

definition lower_char :: "char \<Rightarrow> char" where
  "lower_char c = (let n = (of_char c :: nat) in if 65 \<le> n \<and> n \<le> 90 then char_of (n + 32) else c)"

definition toLowerCase :: "string \<Rightarrow> string" where
  "toLowerCase s = map lower_char s"

text \<open>\<^verbatim>\<open>s.trim()\<close>.\<close>

definition js_trim :: "string \<Rightarrow> string" where
  "js_trim s = rev (dropWhile js_whitespace (rev (dropWhile js_whitespace s)))"

text \<open>
  \<^verbatim>\<open>escapeHtml\<close>: four global replacements, of \<open>&\<close> first. No replacement text contains a
  character that a later replacement looks for, so the result is the character-wise
  substitution.
\<close>

definition escape_char :: "char \<Rightarrow> string" where
  "escape_char c =
     (if c = CHR ''&'' then ''&amp;''
      else if c = CHR ''<'' then ''&lt;''
      else if c = CHR ''>'' then ''&gt;''
      else if c = CHR 0x22 then ''&quot;''
      else [c])"

definition escapeHtml :: "string \<Rightarrow> string" where
  "escapeHtml s = concat (map escape_char s)"

text \<open>Removal of every match of a fixed pattern, compared without regard to letter case,
  scanning from the left as a global \<^verbatim>\<open>replace\<close> with the empty string does.\<close>

fun remove_all_ci :: "string \<Rightarrow> string \<Rightarrow> string" where
  "remove_all_ci pat [] = []"
| "remove_all_ci pat (c # cs) =
     (if pat \<noteq> [] \<and> starts_with (toLowerCase (c # cs)) (toLowerCase pat)
      then remove_all_ci pat (drop (length pat - 1) cs)
      else c # remove_all_ci pat cs)"

text \<open>\<^verbatim>\<open>normalizeInlineHtml\<close>: no-break spaces become spaces, empty styled spans are removed,
  and the result is trimmed.\<close>

definition normalizeInlineHtml :: "string \<Rightarrow> string" where
  "normalizeInlineHtml html =
     js_trim (remove_all_ci ''<span style=\"\"></span>''
       (map (\<lambda>c. if (of_char c :: nat) = 160 then CHR '' '' else c) html))"

section \<open>Raster colour sampling\<close>

subsection \<open>Hexadecimal strings\<close>

definition hexval :: "char \<Rightarrow> nat option" where
  "hexval c =
     (let n = (of_char c :: nat) in
      if 48 \<le> n \<and> n \<le> 57 then Some (n - 48)
      else if 97 \<le> n \<and> n \<le> 102 then Some (n - 87)
      else if 65 \<le> n \<and> n \<le> 70 then Some (n - 55)
      else None)"

definition hex_digits_value :: "string \<Rightarrow> nat" where
  "hex_digits_value ds = foldl (\<lambda>acc c. 16 * acc + the (hexval c)) 0 ds"

text \<open>
  \<^verbatim>\<open>parseInt(s, 16)\<close>: leading white space is skipped, then an optional sign and an
  optional \<^verbatim>\<open>0x\<close> prefix; the value is that of the longest run of hexadecimal digits that
  follows, and \<^verbatim>\<open>NaN\<close> (here \<open>None\<close>) when that run is empty.
\<close>

definition parseInt16 :: "string \<Rightarrow> real option" where
  "parseInt16 s =
     (let s1 = dropWhile js_whitespace s;
          sgn = (if take 1 s1 = ''-'' then - 1 else (1::real));
          s2 = (if take 1 s1 = ''-'' \<or> take 1 s1 = ''+'' then drop 1 s1 else s1);
          s3 = (if take 2 s2 = ''0x'' \<or> take 2 s2 = ''0X'' then drop 2 s2 else s2);
          ds = takeWhile (\<lambda>c. hexval c \<noteq> None) s3
      in if ds = [] then None else Some (sgn * real (hex_digits_value ds)))"

text \<open>\<^verbatim>\<open>s.slice(a, b)\<close> for \<open>0 \<le> a \<le> b\<close>.\<close>

definition slice :: "string \<Rightarrow> nat \<Rightarrow> nat \<Rightarrow> string" where
  "slice s a b = take (b - a) (drop a s)"

definition hex_digit :: "nat \<Rightarrow> char" where
  "hex_digit n = ''0123456789abcdef'' ! n"

text \<open>\<^verbatim>\<open>c.toString(16).padStart(2, '0')\<close> for a channel value below 256.\<close>

definition hex2 :: "nat \<Rightarrow> string" where
  "hex2 c = [hex_digit (c div 16), hex_digit (c mod 16)]"

subsection \<open>Pixels and the canvas\<close>

text \<open>A pixel is the four bytes \<open>r, g, b, a\<close> of the \<^verbatim>\<open>ImageData\<close> array.\<close>

type_synonym pixel = "nat \<times> nat \<times> nat \<times> nat"

text \<open>
  The rendered page: \<open>None\<close> when there is no canvas; otherwise the read-back of a
  rectangle given in CSS pixels, which is \<open>None\<close> when no 2D context is available, when the
  clamped rectangle is empty or when \<^verbatim>\<open>getImageData\<close> throws.
\<close>

type_synonym canvas = "(real \<Rightarrow> real \<Rightarrow> real \<Rightarrow> real \<Rightarrow> pixel list option) option"

definition luminance :: "real \<Rightarrow> real \<Rightarrow> real \<Rightarrow> real" where
  "luminance r g b = r * (299 / 1000) + g * (587 / 1000) + b * (114 / 1000)"

definition pixel_lum :: "pixel \<Rightarrow> real" where
  "pixel_lum p = (case p of (r, g, b, a) \<Rightarrow> luminance (real r) (real g) (real b))"

definition pixel_alpha :: "pixel \<Rightarrow> nat" where
  "pixel_alpha p = (case p of (r, g, b, a) \<Rightarrow> a)"

text \<open>\<^verbatim>\<open>(c >> 2) << 2\<close> on a byte.\<close>

definition quantize :: "nat \<Rightarrow> nat" where
  "quantize c = (c div 4) * 4"

text \<open>The histogram key \<^verbatim>\<open>`${qr},${qg},${qb}`\<close>, modelled as the triple.\<close>

definition color_key :: "pixel \<Rightarrow> nat \<times> nat \<times> nat" where
  "color_key p = (case p of (r, g, b, a) \<Rightarrow> (quantize r, quantize g, quantize b))"

text \<open>\<^verbatim>\<open>counts[key] = (counts[key] || 0) + 1\<close> on an object whose entries keep insertion order.\<close>

definition bump_count :: "(nat \<times> nat \<times> nat) \<Rightarrow> ((nat \<times> nat \<times> nat) \<times> nat) list \<Rightarrow> ((nat \<times> nat \<times> nat) \<times> nat) list" where
  "bump_count key counts =
     AList.update key (case map_of counts key of None \<Rightarrow> 1 | Some c \<Rightarrow> c + 1) counts"

text \<open>The search for the most frequent key; \<open>None\<close> is \<^verbatim>\<open>null\<close>.\<close>

definition most_frequent :: "((nat \<times> nat \<times> nat) \<times> nat) list \<Rightarrow> (nat \<times> nat \<times> nat) option" where
  "most_frequent counts =
     snd (foldl (\<lambda>st kc. if snd kc > fst st then (snd kc, Some (fst kc)) else st) (0, None) counts)"

definition hex_of_key :: "nat \<times> nat \<times> nat \<Rightarrow> string" where
  "hex_of_key k = (case k of (r, g, b) \<Rightarrow> ''#'' @ hex2 r @ hex2 g @ hex2 b)"

subsection \<open>\<^verbatim>\<open>sampleBackgroundColor\<close>\<close>

definition bg_count_step :: "((nat \<times> nat \<times> nat) \<times> nat) list \<Rightarrow> pixel \<Rightarrow> ((nat \<times> nat \<times> nat) \<times> nat) list" where
  "bg_count_step counts p = (if pixel_lum p < 150 then counts else bump_count (color_key p) counts)"

definition sampleBackgroundColor :: "canvas \<Rightarrow> real \<Rightarrow> real \<Rightarrow> real \<Rightarrow> real \<Rightarrow> string" where
  "sampleBackgroundColor canvas x y w h =
     (case canvas of
        None \<Rightarrow> ''#ffffff''
      | Some readback \<Rightarrow>
          (case readback x y w h of
             None \<Rightarrow> ''#ffffff''
           | Some data \<Rightarrow>
               (case most_frequent (foldl bg_count_step [] data) of
                  None \<Rightarrow> ''#ffffff''
                | Some best \<Rightarrow> hex_of_key best)))"

subsection \<open>\<^verbatim>\<open>sampleTextColor\<close>\<close>

text \<open>
  The background luminance \<^verbatim>\<open>bgLum\<close>: 230 unless \<^verbatim>\<open>bgHex\<close> is a string of length 7, in which
  case it is computed from the three parsed channels (\<open>None\<close> is \<^verbatim>\<open>NaN\<close>).
\<close>

definition bgLum :: "string \<Rightarrow> real option" where
  "bgLum bgHex =
     (if bgHex \<noteq> [] \<and> length bgHex = 7 then
        (case (parseInt16 (slice bgHex 1 3), parseInt16 (slice bgHex 3 5), parseInt16 (slice bgHex 5 7)) of
           (Some r, Some g, Some b) \<Rightarrow> Some (luminance r g b)
         | _ \<Rightarrow> None)
      else Some 230)"

definition skipThreshold :: "string \<Rightarrow> real option" where
  "skipThreshold bgHex = map_option (\<lambda>l. l - 40) (bgLum bgHex)"

text \<open>The test \<^verbatim>\<open>lum > skipThreshold\<close>, which is false when the threshold is \<^verbatim>\<open>NaN\<close>.\<close>

definition exceeds :: "real \<Rightarrow> real option \<Rightarrow> bool" where
  "exceeds lum thr = (case thr of None \<Rightarrow> False | Some t \<Rightarrow> lum > t)"

definition text_count_step :: "real option \<Rightarrow> ((nat \<times> nat \<times> nat) \<times> nat) list \<Rightarrow> pixel \<Rightarrow> ((nat \<times> nat \<times> nat) \<times> nat) list" where
  "text_count_step thr counts p =
     (if pixel_alpha p < 128 then counts
      else if exceeds (pixel_lum p) thr then counts
      else bump_count (color_key p) counts)"

definition colorCounts :: "string \<Rightarrow> pixel list \<Rightarrow> ((nat \<times> nat \<times> nat) \<times> nat) list" where
  "colorCounts bgHex data = foldl (text_count_step (skipThreshold bgHex)) [] data"

definition sampleTextColor :: "canvas \<Rightarrow> real \<Rightarrow> real \<Rightarrow> real \<Rightarrow> real \<Rightarrow> string \<Rightarrow> string" where
  "sampleTextColor canvas x y w h bgHex =
     (case canvas of
        None \<Rightarrow> ''#000000''
      | Some readback \<Rightarrow>
          (case readback x y w h of
             None \<Rightarrow> ''#000000''
           | Some data \<Rightarrow>
               (case most_frequent (colorCounts bgHex data) of
                  None \<Rightarrow> ''#000000''
                | Some bestColor \<Rightarrow> hex_of_key bestColor)))"

text \<open>A canvas whose every read-back is the given pixel data.\<close>

definition const_canvas :: "pixel list \<Rightarrow> canvas" where
  "const_canvas data = Some (\<lambda>x y w h. Some data)"

section \<open>The PDF library as seen by the commit functions\<close>

text \<open>
  \<^verbatim>\<open>window.PDFLib\<close> is an external library. Its calls are modelled as follows: a font handle
  is the name of the font it embeds, an image handle is the codec and the bytes, and the
  calls that draw on the page are recorded in order. The library's own behaviour is a
  parameter: which names \<^verbatim>\<open>StandardFonts\<close> has, how wide a text is in a font, and which
  bytes \<^verbatim>\<open>embedPng\<close> and \<^verbatim>\<open>embedJpg\<close> accept (a rejected call throws). Loading the
  document, embedding a font and the drawing calls themselves are taken to return normally;
  when one of them throws, the commit function rejects and issues no result.
\<close>

datatype font = CustomFont | StandardFont string

datatype embedded_image = PngImage "nat list" | JpgImage "nat list"

text \<open>\<^verbatim>\<open>PDFLib.rgb(r, g, b)\<close>; a channel is \<open>None\<close> when it is \<^verbatim>\<open>NaN\<close>.\<close>

datatype color = RGB "real option" "real option" "real option"

definition white :: color where
  "white = RGB (Some 1) (Some 1) (Some 1)"

definition black :: color where
  "black = RGB (Some 0) (Some 0) (Some 0)"

datatype draw_call =
    DrawRectangle real real real real color
  | DrawText string real real real font color
  | DrawImage embedded_image real real real real

record pdflib =
  standardFonts :: "string \<Rightarrow> bool"
  widthOfTextAtSize :: "font \<Rightarrow> string \<Rightarrow> real \<Rightarrow> real"
  pngOk :: "nat list \<Rightarrow> bool"
  jpgOk :: "nat list \<Rightarrow> bool"

definition embedPng :: "pdflib \<Rightarrow> nat list \<Rightarrow> embedded_image option" where
  "embedPng lib bytes = (if pngOk lib bytes then Some (PngImage bytes) else None)"

definition embedJpg :: "pdflib \<Rightarrow> nat list \<Rightarrow> embedded_image option" where
  "embedJpg lib bytes = (if jpgOk lib bytes then Some (JpgImage bytes) else None)"

section \<open>Image regions\<close>

datatype image_action = ActionNone | ActionDelete | ActionReplace

record replace_src =
  src_bytes :: "nat list"
  src_type :: string

text \<open>An entry of \<^verbatim>\<open>imageOverlays\<close> (without its DOM element).\<close>

record image_overlay =
  img_pdfX :: real
  img_pdfY :: real
  img_pdfW :: real
  img_pdfH :: real
  img_action :: image_action
  img_replaceSrc :: "replace_src option"

subsection \<open>\<^verbatim>\<open>commitImageEdits\<close>\<close>

definition cover_rectangle :: "image_overlay \<Rightarrow> draw_call" where
  "cover_rectangle change =
     DrawRectangle (img_pdfX change) (img_pdfY change) (img_pdfW change) (img_pdfH change) white"

text \<open>The \<^verbatim>\<open>try\<close> block with its nested \<^verbatim>\<open>try\<close>: \<open>None\<close> is the \<^verbatim>\<open>continue\<close> of the inner
  \<^verbatim>\<open>catch\<close>.\<close>

definition embed_replacement :: "pdflib \<Rightarrow> replace_src \<Rightarrow> embedded_image option" where
  "embed_replacement lib src =
     (case (if js_includes (src_type src) ''png''
            then embedPng lib (src_bytes src) else embedJpg lib (src_bytes src)) of
        Some img \<Rightarrow> Some img
      | None \<Rightarrow> embedJpg lib (src_bytes src))"

text \<open>The body of the loop over \<^verbatim>\<open>changes\<close>: the calls it adds to the page.\<close>

definition image_change_calls :: "pdflib \<Rightarrow> image_overlay \<Rightarrow> draw_call list" where
  "image_change_calls lib change =
     (if img_action change = ActionDelete then [cover_rectangle change]
      else if img_action change = ActionReplace \<and> img_replaceSrc change \<noteq> None then
        cover_rectangle change #
        (case embed_replacement lib (the (img_replaceSrc change)) of
           None \<Rightarrow> []
         | Some img \<Rightarrow>
             [DrawImage img (img_pdfX change) (img_pdfY change) (img_pdfW change) (img_pdfH change)])
      else [])"

text \<open>The result is \<open>None\<close> for \<^verbatim>\<open>null\<close>; otherwise the calls issued before \<^verbatim>\<open>doc.save()\<close>.
  The first argument is \<^verbatim>\<open>window.PDFLib\<close>.\<close>

definition commitImageEdits :: "pdflib option \<Rightarrow> image_overlay list \<Rightarrow> draw_call list option" where
  "commitImageEdits PDFLib imageOverlays =
     (let changes = filter (\<lambda>ov. img_action ov \<noteq> ActionNone) imageOverlays in
      if changes = [] then None
      else (case PDFLib of
              None \<Rightarrow> None
            | Some lib \<Rightarrow> Some (foldl (\<lambda>calls change. calls @ image_change_calls lib change) [] changes)))"

subsection \<open>The commit of one region in words\<close>

text \<open>
  What the commit does for one region, stated from the specification as amended: nothing
  for \<open>none\<close>; the cover rectangle for \<open>delete\<close>; for \<open>replace\<close> with a source, the cover
  rectangle, then the image when PNG embedding (tried only when the MIME type contains
  \<open>png\<close>) or else JPEG embedding accepts the bytes.
\<close>

definition region_calls :: "pdflib \<Rightarrow> image_overlay \<Rightarrow> draw_call list" where
  "region_calls lib r =
     (case img_action r of
        ActionNone \<Rightarrow> []
      | ActionDelete \<Rightarrow> [cover_rectangle r]
      | ActionReplace \<Rightarrow>
          (case img_replaceSrc r of
             None \<Rightarrow> []
           | Some src \<Rightarrow>
               cover_rectangle r #
               (if js_includes (src_type src) ''png'' \<and> pngOk lib (src_bytes src)
                then [DrawImage (PngImage (src_bytes src)) (img_pdfX r) (img_pdfY r) (img_pdfW r) (img_pdfH r)]
                else if jpgOk lib (src_bytes src)
                then [DrawImage (JpgImage (src_bytes src)) (img_pdfX r) (img_pdfY r) (img_pdfW r) (img_pdfH r)]
                else [])))"

text \<open>
  The same with the retry as the specification words it, ``one alternate codec'': after a
  failed JPEG attempt the retry would be PNG.
\<close>

definition alternate_codec_calls :: "pdflib \<Rightarrow> image_overlay \<Rightarrow> draw_call list" where
  "alternate_codec_calls lib r =
     (case img_action r of
        ActionNone \<Rightarrow> []
      | ActionDelete \<Rightarrow> [cover_rectangle r]
      | ActionReplace \<Rightarrow>
          (case img_replaceSrc r of
             None \<Rightarrow> []
           | Some src \<Rightarrow>
               cover_rectangle r #
               (let png_first = js_includes (src_type src) ''png'';
                    first = (if png_first then embedPng lib (src_bytes src) else embedJpg lib (src_bytes src));
                    second = (if png_first then embedJpg lib (src_bytes src) else embedPng lib (src_bytes src))
                in case first of
                     Some img \<Rightarrow> [DrawImage img (img_pdfX r) (img_pdfY r) (img_pdfW r) (img_pdfH r)]
                   | None \<Rightarrow>
                       (case second of
                          Some img \<Rightarrow> [DrawImage img (img_pdfX r) (img_pdfY r) (img_pdfW r) (img_pdfH r)]
                        | None \<Rightarrow> []))))"

subsection \<open>Example regions\<close>

text \<open>A library that accepts as PNG the bytes starting with the PNG signature byte 137 and as
  JPEG those starting with 255.\<close>

definition signature_lib :: pdflib where
  "signature_lib =
     \<lparr>standardFonts = (\<lambda>n. True), widthOfTextAtSize = (\<lambda>f t s. real (length t) * s / 2),
      pngOk = (\<lambda>bs. take 1 bs = [137]), jpgOk = (\<lambda>bs. take 1 bs = [255])\<rparr>"

definition region_at :: "real \<Rightarrow> image_action \<Rightarrow> replace_src option \<Rightarrow> image_overlay" where
  "region_at x a src =
     \<lparr>img_pdfX = x, img_pdfY = 20, img_pdfW = 100, img_pdfH = 50, img_action = a, img_replaceSrc = src\<rparr>"

text \<open>A PNG file uploaded under the MIME type of a JPEG.\<close>

definition mislabelled_png :: replace_src where
  "mislabelled_png = \<lparr>src_bytes = [137, 80, 78, 71], src_type = ''image/jpeg''\<rparr>"

definition broken_png :: replace_src where
  "broken_png = \<lparr>src_bytes = [0, 1, 2], src_type = ''image/png''\<rparr>"

definition good_jpeg :: replace_src where
  "good_jpeg = \<lparr>src_bytes = [255, 216, 255], src_type = ''image/jpeg''\<rparr>"

section \<open>Font mapping\<close>

definition mapToStandardFont :: "string \<Rightarrow> string" where
  "mapToStandardFont name =
     (let lower = toLowerCase name in
      if js_includes lower ''courier'' \<or> js_includes lower ''mono'' then
        (if js_includes lower ''bold'' \<and> (js_includes lower ''oblique'' \<or> js_includes lower ''italic'')
         then ''CourierBoldOblique''
         else if js_includes lower ''bold'' then ''CourierBold''
         else if js_includes lower ''oblique'' \<or> js_includes lower ''italic'' then ''CourierOblique''
         else ''Courier'')
      else if js_includes lower ''times'' \<or> js_includes lower ''roman'' \<or>
              (js_includes lower ''serif'' \<and> \<not> js_includes lower ''sans'') then
        (if js_includes lower ''bold'' \<and> js_includes lower ''italic'' then ''TimesRomanBoldItalic''
         else if js_includes lower ''bold'' then ''TimesRomanBold''
         else if js_includes lower ''italic'' then ''TimesRomanItalic''
         else ''TimesRoman'')
      else if js_includes lower ''bold'' \<and> (js_includes lower ''oblique'' \<or> js_includes lower ''italic'')
        then ''HelveticaBoldOblique''
      else if js_includes lower ''bold'' then ''HelveticaBold''
      else if js_includes lower ''oblique'' \<or> js_includes lower ''italic'' then ''HelveticaOblique''
      else ''Helvetica'')"

definition mapToCSSFont :: "string \<Rightarrow> string" where
  "mapToCSSFont name =
     (let lower = toLowerCase name in
      if js_includes lower ''courier'' \<or> js_includes lower ''mono''
        then ''\"Courier New\", Courier, monospace''
      else if js_includes lower ''times'' \<or> js_includes lower ''roman'' \<or>
              (js_includes lower ''serif'' \<and> \<not> js_includes lower ''sans'')
        then ''\"Times New Roman\", Times, serif''
      else if js_includes lower ''arial'' \<or> js_includes lower ''helvetica'' \<or> js_includes lower ''sans''
        then ''Arial, Helvetica, sans-serif''
      else if js_includes lower ''georgia'' then ''Georgia, serif''
      else if js_includes lower ''verdana'' then ''Verdana, sans-serif''
      else if js_includes lower ''trebuchet'' then ''\"Trebuchet MS\", sans-serif''
      else if js_includes lower ''tahoma'' then ''Tahoma, sans-serif''
      else if js_includes lower ''palatino''
        then ''\"Palatino Linotype\", \"Book Antiqua\", Palatino, serif''
      else if js_includes lower ''garamond'' then ''Garamond, serif''
      else ''Arial, Helvetica, sans-serif'')"

text \<open>The pair is \<open>(bold, italic)\<close>.\<close>

definition detectFontStyle :: "string \<Rightarrow> bool \<times> bool" where
  "detectFontStyle name =
     (let lower = toLowerCase name in
      (js_includes lower ''bold'' \<or> js_includes lower ''heavy'' \<or> js_includes lower ''black'',
       js_includes lower ''italic'' \<or> js_includes lower ''oblique''))"

record style_info =
  fontWeight :: string
  fontStyle :: string
  fontFamily :: string

definition detectFontStyleWithMeta :: "string \<Rightarrow> style_info option \<Rightarrow> bool \<times> bool" where
  "detectFontStyleWithMeta name styleInfo =
     (let lowerWeight = (case styleInfo of None \<Rightarrow> [] | Some si \<Rightarrow> toLowerCase (fontWeight si));
          lowerStyle = (case styleInfo of None \<Rightarrow> [] | Some si \<Rightarrow> toLowerCase (fontStyle si));
          lowerFamily = (case styleInfo of None \<Rightarrow> [] | Some si \<Rightarrow> toLowerCase (fontFamily si));
          metaBold = (lowerWeight = ''bold'' \<or> lowerWeight = ''700'' \<or> lowerWeight = ''800'' \<or>
                      lowerWeight = ''900'' \<or> js_includes lowerFamily ''bold'');
          metaItalic = (lowerStyle = ''italic'' \<or> lowerStyle = ''oblique'' \<or>
                        js_includes lowerFamily ''italic'' \<or> js_includes lowerFamily ''oblique'')
      in if metaBold \<or> metaItalic then (metaBold, metaItalic) else detectFontStyle name)"

section \<open>The editable overlay\<close>

subsection \<open>DOM content and rich runs\<close>

text \<open>
  The children of an overlay element: text nodes, elements (tag name, \<^verbatim>\<open>style.fontWeight\<close>,
  \<^verbatim>\<open>style.fontStyle\<close>, children) and other nodes such as comments.
\<close>

datatype node = TextNode string | ElementNode string string string "node list" | OtherNode

text \<open>
  The browser's HTML parser and serialiser, which stand between \<^verbatim>\<open>innerHTML\<close> and the
  children of an element, are not part of the program: they are a parameter.
\<close>

record dom =
  parseHTML :: "string \<Rightarrow> node list"
  serializeHTML :: "node list \<Rightarrow> string"

fun node_text :: "node \<Rightarrow> string" where
  "node_text (TextNode t) = t"
| "node_text (ElementNode tagName w s children) = concat (map node_text children)"
| "node_text OtherNode = []"

text \<open>\<^verbatim>\<open>textContent\<close> of an element with the given children.\<close>

definition textContent :: "node list \<Rightarrow> string" where
  "textContent nodes = concat (map node_text nodes)"

text \<open>The children after \<^verbatim>\<open>el.textContent = t\<close>.\<close>

definition text_nodes :: "string \<Rightarrow> node list" where
  "text_nodes t = (if t = [] then [] else [TextNode t])"

record run =
  run_text :: string
  run_bold :: bool
  run_italic :: bool

text \<open>Append text to the output of \<^verbatim>\<open>collectTextRuns\<close>: merged into the last run when the
  styles agree, pushed as a new run otherwise.\<close>

definition append_run :: "string \<Rightarrow> bool \<Rightarrow> bool \<Rightarrow> run list \<Rightarrow> run list" where
  "append_run text b i out =
     (if out \<noteq> [] \<and> run_bold (last out) = b \<and> run_italic (last out) = i
      then butlast out @ [(last out)\<lparr>run_text := run_text (last out) @ text\<rparr>]
      else out @ [\<lparr>run_text = text, run_bold = b, run_italic = i\<rparr>])"

text \<open>The style \<open>(bold, italic)\<close> that an element passes to its children.\<close>

definition next_style :: "string \<Rightarrow> string \<Rightarrow> string \<Rightarrow> bool \<times> bool \<Rightarrow> bool \<times> bool" where
  "next_style tag w s st =
     (let b1 = (if tag = ''b'' \<or> tag = ''strong'' then True else fst st);
          i1 = (if tag = ''i'' \<or> tag = ''em'' then True else snd st);
          b2 = (if w = ''bold'' \<or> w = ''700'' \<or> w = ''800'' \<or> w = ''900'' then True else b1);
          b3 = (if w = ''normal'' \<or> w = ''400'' then False else b2);
          i2 = (if s = ''italic'' \<or> s = ''oblique'' then True else i1);
          i3 = (if s = ''normal'' then False else i2)
      in (b3, i3))"

fun collectTextRuns :: "node \<Rightarrow> bool \<times> bool \<Rightarrow> run list \<Rightarrow> run list" where
  "collectTextRuns (TextNode text) st out =
     (if text = [] then out else append_run text (fst st) (snd st) out)"
| "collectTextRuns OtherNode st out = out"
| "collectTextRuns (ElementNode tagName w s children) st out =
     (if toLowerCase tagName = ''br''
      then append_run [CHR 0x0A]
             (fst (next_style (toLowerCase tagName) (toLowerCase w) (toLowerCase s) st))
             (snd (next_style (toLowerCase tagName) (toLowerCase w) (toLowerCase s) st)) out
      else fold (\<lambda>child acc. collectTextRuns child
                   (next_style (toLowerCase tagName) (toLowerCase w) (toLowerCase s) st) acc)
             children out)"

subsection \<open>Lines, overlay elements and saved lines\<close>

text \<open>A line of a paragraph, as \<^verbatim>\<open>groupIntoLines\<close> or the OCR fallback builds it. The fields
  are prefixed with \<open>l_\<close>; a missing \<^verbatim>\<open>initialHtml\<close> is the empty string and a missing
  \<^verbatim>\<open>pdfLineWidth\<close> is 0.\<close>

record line =
  l_text :: string
  l_initialHtml :: string
  l_left :: real
  l_top :: real
  l_width :: real
  l_height :: real
  l_fontSize :: real
  l_fontName :: string
  l_pdfX :: real
  l_pdfY :: real
  l_pdfFontSize :: real
  l_pdfLineWidth :: real

text \<open>
  A \<^verbatim>\<open>.text-edit-line\<close> element: its children, whether its class list has
  \<^verbatim>\<open>text-edit-dirty\<close>, and its \<^verbatim>\<open>dataset\<close> (prefix \<open>ds_\<close>). Data attributes that hold a
  number hold the number; those that hold \<^verbatim>\<open>'true'\<close> or the empty string hold a \<^typ>\<open>bool\<close>;
  \<^verbatim>\<open>fontSizeOverride\<close> is \<open>None\<close> for the empty string.
\<close>

record line_div =
  childNodes :: "node list"
  dirty_class :: bool
  ds_blockIdx :: int
  ds_lineIdx :: nat
  ds_original :: string
  ds_originalHtml :: string
  ds_matchedColor :: string
  ds_bgColor :: string
  ds_pdfX :: real
  ds_pdfY :: real
  ds_pdfFontSize :: real
  ds_pdfLineWidth :: real
  ds_fontName :: string
  ds_baseBold :: bool
  ds_baseItalic :: bool
  ds_cssFont :: string
  ds_width :: real
  ds_height :: real
  ds_fontSizeOverride :: "real option"
  ds_colorOverride :: string
  ds_fontFamilyOverride :: string
  ds_fontNameOverride :: string
  ds_bold :: bool
  ds_italic :: bool
  ds_initialBold :: bool
  ds_initialItalic :: bool

text \<open>An entry of the arrays kept in \<^verbatim>\<open>_editedBlocks\<close> (prefix \<open>sv_\<close>).\<close>

record saved_line =
  sv_text :: string
  sv_matchedColor :: string
  sv_cssFont :: string
  sv_bold :: bool
  sv_italic :: bool
  sv_fontSizeOverride :: real
  sv_colorOverride :: string
  sv_fontFamilyOverride :: string
  sv_fontNameOverride :: string
  sv_dirty :: bool
  sv_html :: string
  sv_originalHtml :: string
  sv_runs :: "run list"
  sv_pdfX :: real
  sv_pdfY :: real
  sv_pdfFontSize :: real
  sv_pdfLineWidth :: real
  sv_fontName :: string
  sv_screenWidth :: real
  sv_screenHeight :: real
  sv_bgColor :: string

definition extractRunsFromDiv :: "line_div \<Rightarrow> run list" where
  "extractRunsFromDiv d =
     filter (\<lambda>r. run_text r \<noteq> [])
       (fold (\<lambda>child acc. collectTextRuns child (ds_bold d, ds_italic d) acc) (childNodes d) [])"

subsection \<open>Change detection\<close>

definition hasTextChange :: "line_div \<Rightarrow> bool" where
  "hasTextChange d = (textContent (childNodes d) \<noteq> ds_original d)"

definition hasInlineFormatChange :: "dom \<Rightarrow> line_div \<Rightarrow> bool" where
  "hasInlineFormatChange P d =
     (normalizeInlineHtml (serializeHTML P (childNodes d)) \<noteq> ds_originalHtml d)"

definition hasFormatChange :: "dom \<Rightarrow> line_div \<Rightarrow> bool" where
  "hasFormatChange P d =
     (ds_fontSizeOverride d \<noteq> None \<or> ds_colorOverride d \<noteq> [] \<or> ds_fontFamilyOverride d \<noteq> [] \<or>
      ds_bold d \<noteq> ds_initialBold d \<or> ds_italic d \<noteq> ds_initialItalic d \<or>
      hasInlineFormatChange P d)"

definition markDirty :: "dom \<Rightarrow> line_div \<Rightarrow> line_div" where
  "markDirty P d = d\<lparr>dirty_class := (hasTextChange d \<or> hasFormatChange P d)\<rparr>"

section \<open>The block editing session\<close>

subsection \<open>State\<close>

text \<open>An undo snapshot; the overlay element it belongs to is named by block and line index.\<close>

record snapshot =
  snap_blockIdx :: int
  snap_lineIdx :: nat
  snap_text :: string
  snap_html :: string
  snap_bold :: bool
  snap_italic :: bool
  snap_fontSizeOverride :: "real option"
  snap_colorOverride :: string
  snap_fontFamilyOverride :: string
  snap_fontNameOverride :: string

text \<open>
  The module variables of the text editor. \<open>editContainer\<close> is \<open>None\<close> for \<^verbatim>\<open>null\<close> and
  otherwise holds the \<^verbatim>\<open>.text-edit-line\<close> children of the container in document order;
  \<open>currentViewport\<close> holds the scale; \<open>editedBlocks\<close> is the \<^verbatim>\<open>Map\<close> in insertion order;
  \<open>customFont\<close> holds the name of the uploaded font. The click zones, the click shield, the
  toolbar and the focus are presentation only and are left out. The canvas is read through
  \<open>pdfCanvas\<close>; erasing the active block's pixels and restoring them on deactivation are
  left out, so every sample reads the page as rendered.
\<close>

record session =
  active :: bool
  editContainer :: "line_div list option"
  currentViewport :: "real option"
  pdfCanvas :: canvas
  paragraphData :: "line list list"
  activeBlockIdx :: int
  editedBlocks :: "(int \<times> saved_line list) list"
  undoStack :: "snapshot list"
  redoStack :: "snapshot list"
  customFont :: "string option"

definition MAX_UNDO :: nat where
  "MAX_UNDO = 50"

subsection \<open>Undo\<close>

definition captureSnapshot :: "dom \<Rightarrow> line_div \<Rightarrow> snapshot" where
  "captureSnapshot P d =
     \<lparr>snap_blockIdx = ds_blockIdx d, snap_lineIdx = ds_lineIdx d,
      snap_text = textContent (childNodes d), snap_html = serializeHTML P (childNodes d),
      snap_bold = ds_bold d, snap_italic = ds_italic d,
      snap_fontSizeOverride = ds_fontSizeOverride d, snap_colorOverride = ds_colorOverride d,
      snap_fontFamilyOverride = ds_fontFamilyOverride d,
      snap_fontNameOverride = ds_fontNameOverride d\<rparr>"

definition pushUndo :: "dom \<Rightarrow> line_div \<Rightarrow> session \<Rightarrow> session" where
  "pushUndo P d s =
     (let stack = undoStack s @ [captureSnapshot P d] in
      s\<lparr>undoStack := (if length stack > MAX_UNDO then tl stack else stack), redoStack := []\<rparr>)"

subsection \<open>\<^verbatim>\<open>activateBlock\<close>\<close>

text \<open>\<^verbatim>\<open>arr[i]\<close> for an integer \<open>i\<close>: \<open>None\<close> is \<^verbatim>\<open>undefined\<close>.\<close>

definition js_index :: "'a list \<Rightarrow> int \<Rightarrow> 'a option" where
  "js_index xs i = (if 0 \<le> i \<and> i < int (length xs) then Some (xs ! nat i) else None)"

text \<open>\<^verbatim>\<open>savedEdits ? savedEdits[li] : null\<close>.\<close>

definition saved_at :: "saved_line list option \<Rightarrow> nat \<Rightarrow> saved_line option" where
  "saved_at savedEdits li = (case savedEdits of None \<Rightarrow> None | Some sl \<Rightarrow> js_index sl (int li))"

text \<open>The pair \<open>(textColor, bgColor)\<close> of \<^verbatim>\<open>preSampled\<close> for one line.\<close>

definition preSample :: "canvas \<Rightarrow> line \<Rightarrow> saved_line option \<Rightarrow> string \<times> string" where
  "preSample canvas lin saved =
     (let bgColor = (case saved of
                       Some sv \<Rightarrow> if sv_bgColor sv \<noteq> [] then sv_bgColor sv
                                  else sampleBackgroundColor canvas (l_left lin) (l_top lin) (l_width lin) (l_height lin)
                     | None \<Rightarrow> sampleBackgroundColor canvas (l_left lin) (l_top lin) (l_width lin) (l_height lin));
          textColor = (case saved of
                         Some sv \<Rightarrow> if sv_matchedColor sv \<noteq> [] then sv_matchedColor sv
                                    else sampleTextColor canvas (l_left lin) (l_top lin) (l_width lin) (l_height lin) bgColor
                       | None \<Rightarrow> sampleTextColor canvas (l_left lin) (l_top lin) (l_width lin) (l_height lin) bgColor)
      in (textColor, bgColor))"

text \<open>The children the new overlay element gets: from the saved HTML, else from the line's
  initial HTML, else the plain text.\<close>

definition initial_content :: "dom \<Rightarrow> line \<Rightarrow> saved_line option \<Rightarrow> node list" where
  "initial_content P lin saved =
     (if saved \<noteq> None \<and> sv_html (the saved) \<noteq> [] then parseHTML P (sv_html (the saved))
      else if l_initialHtml lin \<noteq> [] then parseHTML P (l_initialHtml lin)
      else text_nodes (case saved of Some sv \<Rightarrow> sv_text sv | None \<Rightarrow> l_text lin))"

text \<open>The body of the loop that creates the overlay of line \<open>li\<close>.\<close>

definition make_div :: "dom \<Rightarrow> canvas \<Rightarrow> int \<Rightarrow> nat \<Rightarrow> line \<Rightarrow> saved_line option \<Rightarrow> line_div" where
  "make_div P canvas paraIdx li lin saved =
     (let nameStyle = detectFontStyleWithMeta (l_fontName lin) None;
          styleBold = (case saved of Some sv \<Rightarrow> sv_bold sv | None \<Rightarrow> fst nameStyle);
          styleItalic = (case saved of Some sv \<Rightarrow> sv_italic sv | None \<Rightarrow> snd nameStyle);
          cssFont = (case saved of
                       Some sv \<Rightarrow> if sv_cssFont sv \<noteq> [] then sv_cssFont sv else mapToCSSFont (l_fontName lin)
                     | None \<Rightarrow> mapToCSSFont (l_fontName lin));
          d = \<lparr>childNodes = initial_content P lin saved,
               dirty_class = False,
               ds_blockIdx = paraIdx,
               ds_lineIdx = li,
               ds_original = l_text lin,
               ds_originalHtml =
                 (if saved \<noteq> None \<and> sv_originalHtml (the saved) \<noteq> [] then sv_originalHtml (the saved)
                  else normalizeInlineHtml
                         (if l_initialHtml lin \<noteq> [] then l_initialHtml lin else escapeHtml (l_text lin))),
               ds_matchedColor = fst (preSample canvas lin saved),
               ds_bgColor = snd (preSample canvas lin saved),
               ds_pdfX = l_pdfX lin,
               ds_pdfY = l_pdfY lin,
               ds_pdfFontSize = l_pdfFontSize lin,
               ds_pdfLineWidth = l_pdfLineWidth lin,
               ds_fontName = l_fontName lin,
               ds_baseBold = styleBold,
               ds_baseItalic = styleItalic,
               ds_cssFont = cssFont,
               ds_width = l_width lin,
               ds_height = l_height lin,
               ds_fontSizeOverride =
                 (case saved of
                    Some sv \<Rightarrow> if sv_fontSizeOverride sv \<noteq> 0 then Some (sv_fontSizeOverride sv) else None
                  | None \<Rightarrow> None),
               ds_colorOverride = (case saved of Some sv \<Rightarrow> sv_colorOverride sv | None \<Rightarrow> []),
               ds_fontFamilyOverride = (case saved of Some sv \<Rightarrow> sv_fontFamilyOverride sv | None \<Rightarrow> []),
               ds_fontNameOverride = (case saved of Some sv \<Rightarrow> sv_fontNameOverride sv | None \<Rightarrow> []),
               ds_bold = styleBold,
               ds_italic = styleItalic,
               ds_initialBold = styleBold,
               ds_initialItalic = styleItalic\<rparr>
      in if saved \<noteq> None \<and> sv_dirty (the saved) then markDirty P d else d)"

text \<open>The overlays of a paragraph, one per line in order.\<close>

definition make_divs :: "dom \<Rightarrow> canvas \<Rightarrow> int \<Rightarrow> line list \<Rightarrow> saved_line list option \<Rightarrow> line_div list" where
  "make_divs P canvas paraIdx para savedEdits =
     map (\<lambda>li. make_div P canvas paraIdx li (para ! li) (saved_at savedEdits li)) [0..<length para]"

subsection \<open>\<^verbatim>\<open>deactivateBlock\<close>\<close>

text \<open>The object pushed to \<^verbatim>\<open>savedLines\<close> for one overlay element.\<close>

definition save_line :: "dom \<Rightarrow> line_div \<Rightarrow> saved_line" where
  "save_line P d =
     \<lparr>sv_text = textContent (childNodes d),
      sv_matchedColor = ds_matchedColor d,
      sv_cssFont = ds_cssFont d,
      sv_bold = (if ds_bold d \<noteq> ds_initialBold d then ds_bold d else ds_baseBold d),
      sv_italic = (if ds_italic d \<noteq> ds_initialItalic d then ds_italic d else ds_baseItalic d),
      sv_fontSizeOverride = (case ds_fontSizeOverride d of None \<Rightarrow> 0 | Some v \<Rightarrow> v),
      sv_colorOverride = ds_colorOverride d,
      sv_fontFamilyOverride = ds_fontFamilyOverride d,
      sv_fontNameOverride = ds_fontNameOverride d,
      sv_dirty = (hasTextChange d \<or> hasFormatChange P d \<or> dirty_class d),
      sv_html = serializeHTML P (childNodes d),
      sv_originalHtml =
        (if ds_originalHtml d \<noteq> [] then ds_originalHtml d
         else normalizeInlineHtml (escapeHtml (ds_original d))),
      sv_runs = extractRunsFromDiv d,
      sv_pdfX = ds_pdfX d,
      sv_pdfY = ds_pdfY d,
      sv_pdfFontSize = ds_pdfFontSize d,
      sv_pdfLineWidth = ds_pdfLineWidth d,
      sv_fontName = (if ds_fontNameOverride d \<noteq> [] then ds_fontNameOverride d else ds_fontName d),
      sv_screenWidth = ds_width d,
      sv_screenHeight = ds_height d,
      sv_bgColor = (if ds_bgColor d \<noteq> [] then ds_bgColor d else ''#ffffff'')\<rparr>"

text \<open>The elements matched by the selector
  \<^verbatim>\<open>.text-edit-line[data-block-idx="${_activeBlockIdx}"]\<close>.\<close>

definition blockLines :: "session \<Rightarrow> line_div list" where
  "blockLines s =
     (case editContainer s of
        None \<Rightarrow> []
      | Some divs \<Rightarrow> filter (\<lambda>d. ds_blockIdx d = activeBlockIdx s) divs)"

definition deactivateBlock :: "dom \<Rightarrow> session \<Rightarrow> session" where
  "deactivateBlock P s =
     (if activeBlockIdx s < 0 \<or> editContainer s = None then s
      else
        let savedLines = map (save_line P) (blockLines s);
            hasDirty = (\<exists>sv \<in> set savedLines. sv_dirty sv)
        in s\<lparr>editContainer :=
                Some (filter (\<lambda>d. ds_blockIdx d \<noteq> activeBlockIdx s) (the (editContainer s))),
              editedBlocks :=
                (if hasDirty then AList.update (activeBlockIdx s) savedLines (editedBlocks s)
                 else editedBlocks s),
              activeBlockIdx := - 1\<rparr>)"

text \<open>The part of \<^verbatim>\<open>activateBlock\<close> after the previous block has been deactivated.\<close>

definition activate_fresh :: "dom \<Rightarrow> session \<Rightarrow> int \<Rightarrow> session" where
  "activate_fresh P s paraIdx =
     (let s' = s\<lparr>activeBlockIdx := paraIdx\<rparr> in
      case js_index (paragraphData s') paraIdx of
        None \<Rightarrow> s'
      | Some para \<Rightarrow>
          (case editContainer s' of
             None \<Rightarrow> s'
           | Some divs \<Rightarrow>
               s'\<lparr>editContainer :=
                    Some (divs @ make_divs P (pdfCanvas s') paraIdx para
                                   (map_of (editedBlocks s') paraIdx))\<rparr>))"

definition activateBlock :: "dom \<Rightarrow> session \<Rightarrow> int \<Rightarrow> session" where
  "activateBlock P s paraIdx =
     (if paraIdx = activeBlockIdx s then s
      else activate_fresh P (if activeBlockIdx s \<ge> 0 then deactivateBlock P s else s) paraIdx)"

subsection \<open>\<^verbatim>\<open>exitTextEditMode\<close>\<close>

definition exitTextEditMode :: "dom \<Rightarrow> session \<Rightarrow> session" where
  "exitTextEditMode P s =
     (if \<not> active s then s
      else
        let s1 = s\<lparr>active := False\<rparr>;
            s2 = (if activeBlockIdx s1 \<ge> 0 then deactivateBlock P s1 else s1)
        in s2\<lparr>editContainer := None, currentViewport := None, pdfCanvas := None,
               paragraphData := [], activeBlockIdx := - 1, editedBlocks := [],
               undoStack := [], redoStack := []\<rparr>)"

section \<open>The commit of text edits\<close>

text \<open>An entry of the array \<^verbatim>\<open>changes\<close> (prefix \<open>ch_\<close>).\<close>

record change =
  ch_newText :: string
  ch_pdfX :: real
  ch_pdfY :: real
  ch_pdfFontSize :: real
  ch_pdfLineWidth :: real
  ch_fontName :: string
  ch_screenWidth :: real
  ch_screenHeight :: real
  ch_fontSizeOverride :: real
  ch_colorOverride :: string
  ch_bold :: bool
  ch_italic :: bool
  ch_runs :: "run list"
  ch_bgColor :: string

text \<open>The change collected from an overlay element still in the container; \<open>None\<close> is the
  \<^verbatim>\<open>continue\<close> for an unchanged line.\<close>

text \<open>The format test of \<^verbatim>\<open>commitTextEdits\<close>: as \<^const>\<open>hasFormatChange\<close>, but on the parsed font
  size override, which counts when it is not 0.\<close>

definition hasFormatChange_commit :: "dom \<Rightarrow> line_div \<Rightarrow> bool" where
  "hasFormatChange_commit P d =
     ((case ds_fontSizeOverride d of None \<Rightarrow> False | Some v \<Rightarrow> v \<noteq> 0) \<or>
      ds_colorOverride d \<noteq> [] \<or> ds_fontFamilyOverride d \<noteq> [] \<or>
      ds_bold d \<noteq> ds_initialBold d \<or> ds_italic d \<noteq> ds_initialItalic d \<or>
      hasInlineFormatChange P d)"

definition change_of_div :: "dom \<Rightarrow> line_div \<Rightarrow> change option" where
  "change_of_div P d =
     (if \<not> hasTextChange d \<and> \<not> hasFormatChange_commit P d then None
      else Some
        \<lparr>ch_newText = textContent (childNodes d),
         ch_pdfX = ds_pdfX d,
         ch_pdfY = ds_pdfY d,
         ch_pdfFontSize = ds_pdfFontSize d,
         ch_pdfLineWidth = ds_pdfLineWidth d,
         ch_fontName = (if ds_fontNameOverride d \<noteq> [] then ds_fontNameOverride d else ds_fontName d),
         ch_screenWidth = ds_width d,
         ch_screenHeight = ds_height d,
         ch_fontSizeOverride = (case ds_fontSizeOverride d of None \<Rightarrow> 0 | Some v \<Rightarrow> v),
         ch_colorOverride = (if ds_colorOverride d \<noteq> [] then ds_colorOverride d else ds_matchedColor d),
         ch_bold = (if ds_bold d \<noteq> ds_initialBold d then ds_bold d else ds_baseBold d),
         ch_italic = (if ds_italic d \<noteq> ds_initialItalic d then ds_italic d else ds_baseItalic d),
         ch_runs = extractRunsFromDiv d,
         ch_bgColor = (if ds_bgColor d \<noteq> [] then ds_bgColor d else ''#ffffff'')\<rparr>)"

text \<open>The change collected from a saved line; \<open>None\<close> is the \<^verbatim>\<open>continue\<close> for a line that is
  not dirty.\<close>

definition change_of_saved :: "saved_line \<Rightarrow> change option" where
  "change_of_saved sv =
     (if \<not> sv_dirty sv then None
      else Some
        \<lparr>ch_newText = sv_text sv,
         ch_pdfX = sv_pdfX sv,
         ch_pdfY = sv_pdfY sv,
         ch_pdfFontSize = sv_pdfFontSize sv,
         ch_pdfLineWidth = sv_pdfLineWidth sv,
         ch_fontName = sv_fontName sv,
         ch_screenWidth = sv_screenWidth sv,
         ch_screenHeight = sv_screenHeight sv,
         ch_fontSizeOverride = sv_fontSizeOverride sv,
         ch_colorOverride = (if sv_colorOverride sv \<noteq> [] then sv_colorOverride sv else sv_matchedColor sv),
         ch_bold = sv_bold sv,
         ch_italic = sv_italic sv,
         ch_runs = sv_runs sv,
         ch_bgColor = (if sv_bgColor sv \<noteq> [] then sv_bgColor sv else ''#ffffff'')\<rparr>)"

text \<open>All changes: first those of the elements in the container, then those of the store in
  its insertion order.\<close>

definition collect_changes :: "dom \<Rightarrow> session \<Rightarrow> change list" where
  "collect_changes P s =
     List.map_filter (change_of_div P) (case editContainer s of None \<Rightarrow> [] | Some divs \<Rightarrow> divs) @
     List.map_filter change_of_saved (concat (map snd (editedBlocks s)))"

text \<open>
  \<^verbatim>\<open>getFont\<close>. The cache only avoids embedding a font twice: the handle returned is that of
  the custom font, of the mapped standard font, or of Helvetica when \<^verbatim>\<open>StandardFonts\<close> lacks
  the mapped name.
\<close>

definition getFont :: "pdflib \<Rightarrow> string option \<Rightarrow> string \<Rightarrow> bool \<Rightarrow> bool \<Rightarrow> font" where
  "getFont lib custom name bold italic =
     (if name = ''custom'' \<and> custom \<noteq> None then CustomFont
      else
        let variant = name @ (if bold then ''-Bold'' else []) @ (if italic then ''-Italic'' else []);
            stdName = mapToStandardFont variant
        in if standardFonts lib stdName then StandardFont stdName else StandardFont ''Helvetica'')"

text \<open>The colour \<^verbatim>\<open>rgb(parseInt(hex.slice(1, 3), 16) / 255, \<dots>)\<close>.\<close>

definition hex_color :: "string \<Rightarrow> color" where
  "hex_color hex =
     RGB (map_option (\<lambda>v. v / 255) (parseInt16 (slice hex 1 3)))
         (map_option (\<lambda>v. v / 255) (parseInt16 (slice hex 3 5)))
         (map_option (\<lambda>v. v / 255) (parseInt16 (slice hex 5 7)))"

text \<open>The loop over the runs of a line, started with \<open>cursorX\<close>.\<close>

fun draw_runs ::
  "pdflib \<Rightarrow> string option \<Rightarrow> string \<Rightarrow> real \<Rightarrow> real \<Rightarrow> color \<Rightarrow> real \<Rightarrow> run list \<Rightarrow> draw_call list" where
  "draw_runs lib custom name y fsize col cursorX [] = []"
| "draw_runs lib custom name y fsize col cursorX (r # rs) =
     (if run_text r = [] then draw_runs lib custom name y fsize col cursorX rs
      else
        DrawText (run_text r) cursorX y fsize (getFont lib custom name (run_bold r) (run_italic r)) col #
        draw_runs lib custom name y fsize col
          (cursorX + widthOfTextAtSize lib (getFont lib custom name (run_bold r) (run_italic r))
                       (run_text r) fsize)
          rs)"

definition change_fontSize :: "change \<Rightarrow> real" where
  "change_fontSize c = (if ch_fontSizeOverride c \<noteq> 0 then ch_fontSizeOverride c else ch_pdfFontSize c)"

definition change_color :: "change \<Rightarrow> color" where
  "change_color c = (if ch_colorOverride c \<noteq> [] then hex_color (ch_colorOverride c) else black)"

text \<open>The cover rectangle of a change; \<open>scale\<close> is the viewport scale.\<close>

definition change_cover :: "real \<Rightarrow> change \<Rightarrow> draw_call" where
  "change_cover scale c =
     (let rectWidth = (if ch_pdfLineWidth c > 0 then ch_pdfLineWidth c else ch_screenWidth c / scale) + 4;
          pdfLineHeight = max (ch_screenHeight c / scale) (ch_pdfFontSize c);
          rectHeight = max (ch_pdfFontSize c * (108 / 100)) (pdfLineHeight * (112 / 100));
          rectY = ch_pdfY c - max (ch_pdfFontSize c * (18 / 100)) (pdfLineHeight * (18 / 100));
          coverColor = (if ch_bgColor c \<noteq> [] \<and> ch_bgColor c \<noteq> ''#ffffff''
                        then hex_color (ch_bgColor c) else white)
      in DrawRectangle (ch_pdfX c - 1) rectY rectWidth rectHeight coverColor)"

text \<open>The text draws of a change: one per run when there are runs, one for the whole text
  otherwise.\<close>

definition change_text_draws :: "pdflib \<Rightarrow> string option \<Rightarrow> change \<Rightarrow> draw_call list" where
  "change_text_draws lib custom c =
     (if ch_runs c \<noteq> [] then
        draw_runs lib custom (ch_fontName c) (ch_pdfY c) (change_fontSize c) (change_color c)
          (ch_pdfX c) (ch_runs c)
      else
        [DrawText (ch_newText c) (ch_pdfX c) (ch_pdfY c) (change_fontSize c)
           (getFont lib custom (ch_fontName c) (ch_bold c) (ch_italic c)) (change_color c)])"

text \<open>The body of the loop over \<^verbatim>\<open>changes\<close>.\<close>

definition change_calls :: "pdflib \<Rightarrow> string option \<Rightarrow> real \<Rightarrow> change \<Rightarrow> draw_call list" where
  "change_calls lib custom scale c = change_cover scale c # change_text_draws lib custom c"

text \<open>
  \<^verbatim>\<open>commitTextEdits\<close>: the result (\<open>None\<close> for \<^verbatim>\<open>null\<close>, otherwise the calls issued before
  \<^verbatim>\<open>doc.save()\<close>) and the state it leaves. The \<^verbatim>\<open>await\<close>s are taken as atomic.
\<close>

definition commitTextEdits :: "dom \<Rightarrow> pdflib option \<Rightarrow> session \<Rightarrow> draw_call list option \<times> session" where
  "commitTextEdits P PDFLib s =
     (if editContainer s = None then (None, s)
      else
        let s1 = (if activeBlockIdx s \<ge> 0 then deactivateBlock P s else s);
            changes = collect_changes P s1
        in if changes = [] then (None, s1)
           else (case PDFLib of
                   None \<Rightarrow> (None, s1)
                 | Some lib \<Rightarrow>
                     (Some (foldl (\<lambda>calls c. calls @
                              change_calls lib (customFont s1)
                                (case currentViewport s1 of None \<Rightarrow> 1 | Some scale \<Rightarrow> scale) c)
                            [] changes),
                      s1)))"

subsection \<open>The positions of the runs in words\<close>

text \<open>The \<open>x\<close> coordinate of run \<open>i\<close>: the line's original \<open>x\<close> plus the measured widths of the
  runs before it, each in its own resolved font.\<close>

definition run_width :: "pdflib \<Rightarrow> string option \<Rightarrow> string \<Rightarrow> real \<Rightarrow> run \<Rightarrow> real" where
  "run_width lib custom name fsize r =
     widthOfTextAtSize lib (getFont lib custom name (run_bold r) (run_italic r)) (run_text r) fsize"

definition run_x :: "pdflib \<Rightarrow> string option \<Rightarrow> change \<Rightarrow> run list \<Rightarrow> nat \<Rightarrow> real" where
  "run_x lib custom c rs i =
     ch_pdfX c + sum_list (map (run_width lib custom (ch_fontName c) (change_fontSize c)) (take i rs))"

section \<open>Example sessions\<close>

text \<open>A browser stand-in for markup-free text: parsing yields one text node, serialising
  concatenates the text.\<close>

definition plain_dom :: dom where
  "plain_dom = \<lparr>parseHTML = text_nodes, serializeHTML = textContent\<rparr>"

definition demo_line :: "string \<Rightarrow> real \<Rightarrow> line" where
  "demo_line t y =
     \<lparr>l_text = t, l_initialHtml = [], l_left = 72, l_top = y, l_width = 200, l_height = 14,
      l_fontSize = 12, l_fontName = ''Helvetica'', l_pdfX = 72, l_pdfY = 700 - y,
      l_pdfFontSize = 12, l_pdfLineWidth = 150\<rparr>"

text \<open>The state right after \<^verbatim>\<open>enterTextEditMode\<close> on a page with two one-line paragraphs
  and no canvas.\<close>

definition demo_session :: session where
  "demo_session =
     \<lparr>active = True, editContainer = Some [], currentViewport = Some 1, pdfCanvas = None,
      paragraphData = [[demo_line ''Hello World'' 100], [demo_line ''Second'' 200]],
      activeBlockIdx = - 1, editedBlocks = [], undoStack = [], redoStack = [],
      customFont = None\<rparr>"

text \<open>
  The user types in line \<open>li\<close> of the active block: the browser replaces the children of the
  overlay element by the text and fires \<^verbatim>\<open>input\<close>. The handler, on the first input of a focus
  session, takes a snapshot of the element as it is now, sets the snapshot's text to the
  original text, pushes it to the undo stack (dropping the oldest entry beyond
  \<^const>\<open>MAX_UNDO\<close>), empties the redo stack, and calls \<^verbatim>\<open>markDirty\<close>.
\<close>

definition type_text :: "dom \<Rightarrow> nat \<Rightarrow> string \<Rightarrow> session \<Rightarrow> session" where
  "type_text P li t s =
     (case editContainer s of
        None \<Rightarrow> s
      | Some divs \<Rightarrow>
          (case filter (\<lambda>d. ds_blockIdx d = activeBlockIdx s \<and> ds_lineIdx d = li) divs of
             [] \<Rightarrow> s
           | d # ds \<Rightarrow>
               (let snap = (captureSnapshot P (d\<lparr>childNodes := text_nodes t\<rparr>))\<lparr>snap_text := ds_original d\<rparr>;
                    stack = undoStack s @ [snap]
                in s\<lparr>undoStack := (if length stack > MAX_UNDO then tl stack else stack),
                      redoStack := [],
                      editContainer :=
                        Some (map (\<lambda>e. if ds_blockIdx e = activeBlockIdx s \<and> ds_lineIdx e = li
                                       then markDirty P (e\<lparr>childNodes := text_nodes t\<rparr>) else e) divs)\<rparr>)))"

text \<open>The user picks a colour for line \<open>li\<close> of the active block in the toolbar.\<close>

definition pick_color :: "dom \<Rightarrow> nat \<Rightarrow> string \<Rightarrow> session \<Rightarrow> session" where
  "pick_color P li hex s =
     (case editContainer s of
        None \<Rightarrow> s
      | Some divs \<Rightarrow>
          (case filter (\<lambda>d. ds_blockIdx d = activeBlockIdx s \<and> ds_lineIdx d = li) divs of
             [] \<Rightarrow> s
           | d # ds \<Rightarrow>
               (pushUndo P d s)
                 \<lparr>editContainer :=
                    Some (map (\<lambda>e. if ds_blockIdx e = activeBlockIdx s \<and> ds_lineIdx e = li
                                   then markDirty P (e\<lparr>ds_colorOverride := hex\<rparr>) else e) divs)\<rparr>))"

text \<open>Block 0 is active and its line has been edited to ``Goodbye World''.\<close>

definition edited_session :: session where
  "edited_session = type_text plain_dom 0 ''Goodbye World'' (activateBlock plain_dom demo_session 0)"

text \<open>A committed line with a bold run followed by a plain run.\<close>

definition two_run_change :: change where
  "two_run_change =
     \<lparr>ch_newText = ''Hello World'', ch_pdfX = 72, ch_pdfY = 600, ch_pdfFontSize = 12,
      ch_pdfLineWidth = 150, ch_fontName = ''Helvetica'', ch_screenWidth = 200, ch_screenHeight = 14,
      ch_fontSizeOverride = 0, ch_colorOverride = ''#000000'', ch_bold = False, ch_italic = False,
      ch_runs = [\<lparr>run_text = ''Hello '', run_bold = True, run_italic = False\<rparr>,
                 \<lparr>run_text = ''World'', run_bold = False, run_italic = False\<rparr>],
      ch_bgColor = ''#ffffff''\<rparr>"

section \<open>Auxiliary notions for the session proofs\<close>

text \<open>Every overlay element in the container belongs to the active block, whose index is
  not negative: when no block is active the container holds no overlay.\<close>

definition single_active :: "session \<Rightarrow> bool" where
  "single_active s =
     (case editContainer s of
        None \<Rightarrow> True
      | Some divs \<Rightarrow> (\<forall>d \<in> set divs. ds_blockIdx d = activeBlockIdx s \<and> 0 \<le> activeBlockIdx s))"

text \<open>
  The browser reproduces a line that was never activated before: the overlay built from the
  line has the line's text as its text content, and its serialised content agrees, after
  \<^verbatim>\<open>normalizeInlineHtml\<close>, with the HTML the overlay was built from.
\<close>

definition dom_stable :: "dom \<Rightarrow> line \<Rightarrow> bool" where
  "dom_stable P lin =
     (textContent (initial_content P lin None) = l_text lin \<and>
      normalizeInlineHtml (serializeHTML P (initial_content P lin None)) =
        normalizeInlineHtml (if l_initialHtml lin \<noteq> [] then l_initialHtml lin else escapeHtml (l_text lin)))"

section \<open>The markup of a line and the browser's round trip\<close>

subsection \<open>\<^verbatim>\<open>buildInitialHtmlFromItems\<close>\<close>

text \<open>The fields of a text item that \<^verbatim>\<open>buildInitialHtmlFromItems\<close> reads (prefix \<open>it_\<close>); a
  missing \<^verbatim>\<open>styleInfo\<close> is \<open>None\<close>.\<close>

record text_item =
  it_str :: string
  it_fontName :: string
  it_styleInfo :: "style_info option"

definition buildInitialHtmlFromItems :: "text_item list \<Rightarrow> string" where
  "buildInitialHtmlFromItems items =
     concat (map (\<lambda>it.
       (let style = detectFontStyleWithMeta (it_fontName it) (it_styleInfo it);
            opening = (if fst style \<and> snd style then ''<b><i>''
                       else if fst style then ''<b>''
                       else if snd style then ''<i>''
                       else []);
            closing = (if fst style \<and> snd style then ''</i></b>''
                       else if fst style then ''</b>''
                       else if snd style then ''</i>''
                       else [])
        in opening @ escapeHtml (it_str it) @ closing)) items)"

text \<open>
  Where the text and the markup of a line come from. \<^verbatim>\<open>groupIntoLines\<close> joins the strings of
  the line's items into \<^verbatim>\<open>text\<close> and sets \<^verbatim>\<open>initialHtml\<close> to
  \<^verbatim>\<open>buildInitialHtmlFromItems(line.items)\<close>; a line of the OCR fallback has a text and no
  \<^verbatim>\<open>initialHtml\<close>, which is the case of an empty item list here.
\<close>

definition line_source :: "line \<Rightarrow> text_item list \<Rightarrow> bool" where
  "line_source lin items =
     (if items = [] then l_initialHtml lin = []
      else l_text lin = concat (map it_str items) \<and>
           l_initialHtml lin = buildInitialHtmlFromItems items)"

subsection \<open>The HTML fragment parser and serialiser\<close>

text \<open>
  What the HTML standard prescribes for \<^verbatim>\<open>innerHTML\<close>, restricted to the markup this program
  writes and reads back: text, the character references \<^verbatim>\<open>&amp;\<close>, \<^verbatim>\<open>&lt;\<close>, \<^verbatim>\<open>&gt;\<close>,
  \<^verbatim>\<open>&quot;\<close> and \<^verbatim>\<open>&nbsp;\<close>, and well-nested start and end tags, whose attributes are not
  read. Tag names are kept in lower case.

  The input stream is preprocessed: a carriage return, alone or followed by a line feed,
  becomes one line feed.
\<close>

fun normalize_newlines :: "string \<Rightarrow> string" where
  "normalize_newlines [] = []"
| "normalize_newlines [c] = (if c = CHR 0x0D then [CHR 0x0A] else [c])"
| "normalize_newlines (c # d # cs) =
     (if c = CHR 0x0D
      then (if d = CHR 0x0A then CHR 0x0A # normalize_newlines cs
            else CHR 0x0A # normalize_newlines (d # cs))
      else c # normalize_newlines (d # cs))"

text \<open>Character references in text; an ampersand that starts none of them stands for
  itself.\<close>

fun decode_refs :: "string \<Rightarrow> string" where
  "decode_refs [] = []"
| "decode_refs (c # cs) =
     (if c = CHR ''&'' then
        (if starts_with cs ''amp;'' then CHR ''&'' # decode_refs (drop 4 cs)
         else if starts_with cs ''lt;'' then CHR ''<'' # decode_refs (drop 3 cs)
         else if starts_with cs ''gt;'' then CHR ''>'' # decode_refs (drop 3 cs)
         else if starts_with cs ''quot;'' then CHR 0x22 # decode_refs (drop 5 cs)
         else if starts_with cs ''nbsp;'' then char_of (160 :: nat) # decode_refs (drop 5 cs)
         else c # decode_refs cs)
      else c # decode_refs cs)"

datatype token = Chars string | StartTag string | EndTag string

text \<open>The characters collected since the last tag become one token; NUL characters are
  ignored, and no token is made of no character.\<close>

definition flush_text :: "string \<Rightarrow> token list" where
  "flush_text raw =
     (let t = filter (\<lambda>c. c \<noteq> CHR 0x00) (decode_refs raw) in if t = [] then [] else [Chars t])"

definition tag_token :: "string \<Rightarrow> token" where
  "tag_token buf =
     (if buf \<noteq> [] \<and> hd buf = CHR ''/''
      then EndTag (toLowerCase (takeWhile (\<lambda>c. c \<noteq> CHR '' '') (tl buf)))
      else StartTag (toLowerCase (takeWhile (\<lambda>c. c \<noteq> CHR '' '') buf)))"

text \<open>The tokenizer: \<open>in_tag\<close> tells whether a \<open><\<close> has been read and not yet its \<open>>\<close>;
  \<open>buf\<close> holds the characters read since.\<close>

fun tokenize :: "bool \<Rightarrow> string \<Rightarrow> string \<Rightarrow> token list" where
  "tokenize in_tag buf [] = (if in_tag then [] else flush_text buf)"
| "tokenize in_tag buf (c # cs) =
     (if in_tag
      then (if c = CHR ''>'' then tag_token buf # tokenize False [] cs
            else tokenize True (buf @ [c]) cs)
      else (if c = CHR ''<'' then flush_text buf @ tokenize True [] cs
            else tokenize False (buf @ [c]) cs))"

text \<open>Characters are appended to the last child when that is a text node.\<close>

definition append_chars :: "node list \<Rightarrow> string \<Rightarrow> node list" where
  "append_chars cur t =
     (if cur = [] then [TextNode t]
      else (case last cur of
              TextNode u \<Rightarrow> butlast cur @ [TextNode (u @ t)]
            | ElementNode tagName w s children \<Rightarrow> cur @ [TextNode t]
            | OtherNode \<Rightarrow> cur @ [TextNode t]))"

text \<open>
  Tree construction. The state is the stack of open elements, each with the children its
  parent had before it, and the children of the innermost open element so far. An end tag
  closes the innermost open element; \<^verbatim>\<open>br\<close> has no content.
\<close>

fun insert_token :: "token \<Rightarrow> (string \<times> node list) list \<times> node list \<Rightarrow> (string \<times> node list) list \<times> node list" where
  "insert_token (Chars t) (st, cur) = (st, append_chars cur t)"
| "insert_token (StartTag name) (st, cur) =
     (if name = ''br'' then (st, cur @ [ElementNode name [] [] []]) else ((name, cur) # st, []))"
| "insert_token (EndTag name) ([], cur) = ([], cur)"
| "insert_token (EndTag name) ((tagName, before) # st, cur) =
     (st, before @ [ElementNode tagName [] [] cur])"

definition insert_tokens :: "(string \<times> node list) list \<times> node list \<Rightarrow> token list \<Rightarrow> (string \<times> node list) list \<times> node list" where
  "insert_tokens state ts = foldl (\<lambda>acc t. insert_token t acc) state ts"

text \<open>At the end of the input the elements still open are closed.\<close>

fun close_all :: "(string \<times> node list) list \<Rightarrow> node list \<Rightarrow> node list" where
  "close_all [] cur = cur"
| "close_all ((tagName, before) # st) cur = close_all st (before @ [ElementNode tagName [] [] cur])"

definition parse_fragment :: "string \<Rightarrow> node list" where
  "parse_fragment html =
     (case insert_tokens ([], []) (tokenize False [] (normalize_newlines html)) of
        (st, cur) \<Rightarrow> close_all st cur)"

text \<open>Serialisation escapes, in a text node, the ampersand, the no-break space and the
  angle brackets; a double quote is escaped in attribute values only.\<close>

definition html_text_char :: "char \<Rightarrow> string" where
  "html_text_char c =
     (if c = CHR ''&'' then ''&amp;''
      else if (of_char c :: nat) = 160 then ''&nbsp;''
      else if c = CHR ''<'' then ''&lt;''
      else if c = CHR ''>'' then ''&gt;''
      else [c])"

definition html_text :: "string \<Rightarrow> string" where
  "html_text t = concat (map html_text_char t)"

definition style_attribute :: "string \<Rightarrow> string \<Rightarrow> string" where
  "style_attribute w s =
     (if w = [] \<and> s = [] then []
      else '' style=\"'' @
           (if w = [] then [] else ''font-weight: '' @ w @ '';'') @
           (if w = [] \<or> s = [] then [] else '' '') @
           (if s = [] then [] else ''font-style: '' @ s @ '';'') @ ''\"'')"

fun serialize_node :: "node \<Rightarrow> string" where
  "serialize_node (TextNode t) = html_text t"
| "serialize_node (ElementNode tagName w s children) =
     (if toLowerCase tagName = ''br'' then ''<br>''
      else ''<'' @ toLowerCase tagName @ style_attribute w s @ ''>'' @
           concat (map serialize_node children) @
           ''</'' @ toLowerCase tagName @ ''>'')"
| "serialize_node OtherNode = []"

definition serialize_fragment :: "node list \<Rightarrow> string" where
  "serialize_fragment nodes = concat (map serialize_node nodes)"

definition html_dom :: dom where
  "html_dom = \<lparr>parseHTML = parse_fragment, serializeHTML = serialize_fragment\<rparr>"

text \<open>The characters that \<^verbatim>\<open>escapeHtml\<close>, the parser and the serialiser carry through a round
  trip unchanged: all but the double quote, the no-break space, the carriage return and
  NUL.\<close>

definition round_trip_char :: "char \<Rightarrow> bool" where
  "round_trip_char c =
     (c \<noteq> CHR 0x22 \<and> (of_char c :: nat) \<noteq> 160 \<and> c \<noteq> CHR 0x0D \<and> c \<noteq> CHR 0x00)"

subsection \<open>Example lines with markup\<close>

text \<open>A line as \<^verbatim>\<open>groupIntoLines\<close> builds it from its items, with the geometry of
  \<^const>\<open>demo_line\<close>.\<close>

definition item_line :: "text_item list \<Rightarrow> real \<Rightarrow> line" where
  "item_line items y =
     (demo_line (concat (map it_str items)) y)\<lparr>l_initialHtml := buildInitialHtmlFromItems items\<rparr>"

definition heading_items :: "text_item list" where
  "heading_items =
     [\<lparr>it_str = ''Profit & Loss '', it_fontName = ''Helvetica-Bold'', it_styleInfo = None\<rparr>,
      \<lparr>it_str = ''(a < b)'', it_fontName = ''Helvetica'', it_styleInfo = None\<rparr>]"

definition quoted_items :: "text_item list" where
  "quoted_items = [\<lparr>it_str = ''say \"hi\"'', it_fontName = ''Helvetica'', it_styleInfo = None\<rparr>]"

text \<open>A page whose first paragraph has a line with markup and a line of the OCR fallback,
  and whose second paragraph is a line that contains double quotes.\<close>

definition markup_session :: session where
  "markup_session =
     demo_session\<lparr>paragraphData :=
       [[item_line heading_items 100, demo_line ''Hello World'' 120],
        [item_line quoted_items 200]]\<rparr>"

text \<open>Block 0 of the page of \<^const>\<open>demo_session\<close> has been given a text colour and
  deactivated: its record is in the store and no block is active.\<close>

definition recoloured_session :: session where
  "recoloured_session =
     deactivateBlock html_dom
       (pick_color html_dom 0 ''#ff0000'' (activateBlock html_dom demo_session 0))"
section \<open>Proofs: layout reconstruction\<close>

subsection \<open>The histogram of \<^verbatim>\<open>detectColumnSplit\<close>\<close>

lemma minB_eq: "minB = 30" by (simp add: minB_def NUM_BUCKETS_def)
lemma maxB_eq: "maxB = 70" by (simp add: maxB_def NUM_BUCKETS_def)

lemma emptyThreshold_eq: "emptyThreshold n = max 2 (n * 15 div 100)"
proof -
  have "\<lfloor>real n * (15 / 100)\<rfloor> = int (n * 15 div 100)"
  proof -
    have "real n * (15 / 100) = real (n * 15) / real 100" by simp
    then show ?thesis by (simp only: floor_divide_of_nat_eq) 
  qed
  then show ?thesis by (simp add: emptyThreshold_def)
qed

lemma length_add_item: "length (add_item pw sets item) = length sets"
  by (simp add: add_item_def)

lemma nth_add_item:
  "b < length sets \<Longrightarrow>
   add_item pw sets item ! b = (if covers pw item b then insert (yBand item) (sets ! b) else sets ! b)"
  by (simp add: add_item_def covers_def)

lemma length_foldl_add_item: "length (foldl (add_item pw) sets m) = length sets"
  by (induction m arbitrary: sets) (simp_all add: length_add_item)

lemma nth_foldl_add_item:
  "b < length sets \<Longrightarrow>
   foldl (add_item pw) sets m ! b = sets ! b \<union> yBand ` {it \<in> set m. covers pw it b}"
proof (induction m arbitrary: sets)
  case Nil
  then show ?case by simp
next
  case (Cons x xs)
  have "b < length (add_item pw sets x)" using Cons.prems by (simp add: length_add_item)
  from Cons.IH[OF this] Cons.prems show ?case
    by (auto simp: nth_add_item)
qed

lemma length_bucketYSets: "length (bucketYSets m pw) = 100"
  by (simp add: bucketYSets_def length_foldl_add_item NUM_BUCKETS_def)

lemma nth_bucketYSets:
  "b < 100 \<Longrightarrow> bucketYSets m pw ! b = yBand ` {it \<in> set m. covers pw it b}"
  by (simp add: bucketYSets_def nth_foldl_add_item NUM_BUCKETS_def)

lemma length_histogram: "length (histogram m pw) = 100"
  by (simp add: histogram_def length_bucketYSets)

lemma nth_histogram:
  "b < 100 \<Longrightarrow> histogram m pw ! b = card (yBand ` {it \<in> set m. covers pw it b})"
  by (simp add: histogram_def length_bucketYSets nth_bucketYSets)

lemma gap_step_inv:
  "gap_inv b g \<Longrightarrow> 30 \<le> b \<Longrightarrow> b \<le> 70 \<Longrightarrow> gap_inv (Suc b) (gap_step hist thr g b)"
  by (auto simp: gap_inv_def gap_step_def Let_def)

lemma gap_fold_inv:
  "gap_inv 30 g \<Longrightarrow> c \<le> 71 \<Longrightarrow> 30 \<le> c \<Longrightarrow> gap_inv c (foldl (gap_step hist thr) g [30..<c])"
proof (induction c)
  case 0
  then show ?case by simp
next
  case (Suc c)
  show ?case
  proof (cases "c < 30")
    case True
    with Suc.prems have "Suc c = 30" by simp
    with Suc.prems show ?thesis by simp
  next
    case False
    then have c: "30 \<le> c" "c \<le> 70" using Suc.prems by simp_all
    with Suc have "gap_inv c (foldl (gap_step hist thr) g [30..<c])" by simp
    from gap_step_inv[OF this c] c show ?thesis by simp
  qed
qed

lemma gap_close_inv:
  "gap_inv 71 g \<Longrightarrow> gap_inv 71 (gap_close 70 g)"
  by (auto simp: gap_inv_def gap_close_def Let_def)

lemma gap_init_inv: "gap_inv 30 gap_init"
  by (simp add: gap_inv_def gap_init_def)

lemma gap_final_inv:
  "gap_inv 71 (gap_close maxB (foldl (gap_step hist thr) gap_init [minB..<Suc maxB]))"
  using gap_close_inv[OF gap_fold_inv[OF gap_init_inv, of 71 hist thr]]
  by (simp add: minB_eq maxB_eq)

lemma split_in_band:
  assumes "0 < pw" "detectColumnSplit m pw = Some x"
  shows "(30 / 100) * pw \<le> x \<and> x \<le> (70 / 100) * pw"
proof -
  define hist where "hist = histogram m pw"
  define g where "g = gap_close maxB (foldl (gap_step hist (emptyThreshold (Max (set hist)))) gap_init [minB..<Suc maxB])"
  have inv: "gap_inv 71 g" unfolding g_def by (rule gap_final_inv)
  from assms(2) have w: "\<not> bestWidth g < 3" and x: "x = (real_of_int (bestStart g + bestEnd g) / 2) * bucketWidth pw"
    by (auto simp: detectColumnSplit_def Let_def hist_def g_def split: if_splits)
  from inv w have b: "30 \<le> bestStart g" "bestStart g < bestEnd g" "bestEnd g \<le> 70"
    by (auto simp: gap_inv_def)
  then have "60 \<le> real_of_int (bestStart g + bestEnd g)" "real_of_int (bestStart g + bestEnd g) \<le> 140"
    by linarith+
  then have "30 \<le> real_of_int (bestStart g + bestEnd g) / 2" "real_of_int (bestStart g + bestEnd g) / 2 \<le> 70"
    by simp_all
  then have "30 * (pw / 100) \<le> real_of_int (bestStart g + bestEnd g) / 2 * (pw / 100)"
       "real_of_int (bestStart g + bestEnd g) / 2 * (pw / 100) \<le> 70 * (pw / 100)"
    using assms(1) by (simp_all add: mult_right_mono)
  then show ?thesis by (simp add: x bucketWidth_def NUM_BUCKETS_def)
qed

lemma blank_none:
  assumes "\<forall>it \<in> set m. \<not> trim_truthy (str it)"
  shows "detectColumnSplit m pw = None"
proof -
  have "\<And>b. b < 100 \<Longrightarrow> histogram m pw ! b = 0"
    using assms by (auto simp add: nth_histogram covers_def)
  then have "\<forall>x \<in> set (histogram m pw). x = 0"
    by (auto simp: in_set_conv_nth length_histogram)
  moreover have "histogram m pw \<noteq> []"
    using length_histogram[of m pw] by auto
  ultimately have "set (histogram m pw) = {0}"
    by (cases "histogram m pw") auto
  then show ?thesis by (simp add: detectColumnSplit_def Let_def)
qed

text \<open>The gap search on a histogram with one low stretch in the central band.\<close>

lemma scan_dense:
  "gapStart g = - 1 \<Longrightarrow> \<forall>b. a \<le> b \<and> b < c \<longrightarrow> thr < hist ! b \<Longrightarrow>
   foldl (gap_step hist thr) g [a..<c] = g"
proof (induction c)
  case 0
  then show ?case by simp
next
  case (Suc c)
  show ?case
  proof (cases "a \<le> c")
    case True
    with Suc have "foldl (gap_step hist thr) g [a..<c] = g" by simp
    moreover have "thr < hist ! c" using Suc.prems True by auto
    then have "gap_step hist thr g c = g"
      using Suc.prems(1) by (simp add: gap_step_def)
    ultimately show ?thesis using True by simp
  next
    case False
    then show ?thesis by simp
  qed
qed

lemma scan_gap:
  "gapStart g = - 1 \<Longrightarrow> a < c \<Longrightarrow> \<forall>b. a \<le> b \<and> b < c \<longrightarrow> hist ! b \<le> thr \<Longrightarrow>
   foldl (gap_step hist thr) g [a..<c] = g\<lparr>gapStart := int a\<rparr>"
proof (induction c)
  case 0
  then show ?case by simp
next
  case (Suc c)
  show ?case
  proof (cases "a < c")
    case True
    with Suc have "foldl (gap_step hist thr) g [a..<c] = g\<lparr>gapStart := int a\<rparr>" by simp
    moreover have "hist ! c \<le> thr" using Suc.prems True by auto
    then have "gap_step hist thr (g\<lparr>gapStart := int a\<rparr>) c = g\<lparr>gapStart := int a\<rparr>"
      by (simp add: gap_step_def)
    ultimately show ?thesis using True by simp
  next
    case False
    with Suc.prems have "a = c" by simp
    moreover have "hist ! c \<le> thr" using Suc.prems \<open>a = c\<close> by auto
    then have "gap_step hist thr g c = g\<lparr>gapStart := int c\<rparr>"
      using Suc.prems(1) by (simp add: gap_step_def)
    ultimately show ?thesis by simp
  qed
qed

lemma upt_split: "a \<le> b \<Longrightarrow> b \<le> c \<Longrightarrow> [a..<c] = [a..<b] @ [b..<c]"
  using upt_add_eq_append[of a b "c - b"] by simp

lemma scan_profile_closed:
  assumes "30 \<le> p" "p < q" "q \<le> 70"
    and "\<forall>b. 30 \<le> b \<and> b < p \<longrightarrow> thr < hist ! b"
    and "\<forall>b. p \<le> b \<and> b < q \<longrightarrow> hist ! b \<le> thr"
    and "\<forall>b. q \<le> b \<and> b \<le> 70 \<longrightarrow> thr < hist ! b"
  shows "gap_close maxB (foldl (gap_step hist thr) gap_init [minB..<Suc maxB]) =
         \<lparr>bestStart = int p, bestEnd = int q, bestWidth = int q - int p, gapStart = - 1\<rparr>"
proof -
  let ?r = "\<lparr>bestStart = int p, bestEnd = int q, bestWidth = int q - int p, gapStart = - 1\<rparr>"
  have split: "[30..<Suc 70] = [30..<p] @ [p..<q] @ [q] @ [Suc q..<Suc 70]"
  proof -
    have "[30..<Suc 70] = [30..<p] @ [p..<Suc 70]" using assms(1-3) by (intro upt_split) simp_all
    also have "[p..<Suc 70] = [p..<q] @ [q..<Suc 70]" using assms(1-3) by (intro upt_split) simp_all
    also have "[q..<Suc 70] = q # [Suc q..<Suc 70]" using assms(3) by (intro upt_conv_Cons) simp
    finally show ?thesis by simp
  qed
  have s1: "foldl (gap_step hist thr) gap_init [30..<p] = gap_init"
    using assms(4) by (intro scan_dense) (auto simp: gap_init_def)
  have s2: "foldl (gap_step hist thr) gap_init [p..<q] = gap_init\<lparr>gapStart := int p\<rparr>"
    using assms(2,5) by (intro scan_gap) (auto simp: gap_init_def)
  have s3: "gap_step hist thr (gap_init\<lparr>gapStart := int p\<rparr>) q = ?r"
  proof -
    have "thr < hist ! q" using assms(3,6) by auto
    then show ?thesis using assms(2) by (simp add: gap_step_def gap_init_def Let_def)
  qed
  have s4: "foldl (gap_step hist thr) ?r [Suc q..<Suc 70] = ?r"
    using assms(6) by (intro scan_dense) auto
  have fold: "foldl (gap_step hist thr) gap_init [30..<Suc 70] = ?r"
    by (simp only: split foldl_append foldl.simps s1 s2 s3 s4)
  have "gap_close 70 ?r = ?r" by (simp add: gap_close_def)
  then show ?thesis by (simp only: minB_eq maxB_eq fold)
qed

lemma scan_profile_open:
  assumes "30 \<le> p" "p < 70"
    and "\<forall>b. 30 \<le> b \<and> b < p \<longrightarrow> thr < hist ! b"
    and "\<forall>b. p \<le> b \<and> b \<le> 70 \<longrightarrow> hist ! b \<le> thr"
  shows "gap_close maxB (foldl (gap_step hist thr) gap_init [minB..<Suc maxB]) =
         \<lparr>bestStart = int p, bestEnd = 70, bestWidth = 70 - int p, gapStart = int p\<rparr>"
proof -
  have split: "[30..<Suc 70] = [30..<p] @ [p..<Suc 70]"
    using assms(1,2) by (intro upt_split) simp_all
  have s1: "foldl (gap_step hist thr) gap_init [30..<p] = gap_init"
    using assms(3) by (intro scan_dense) (auto simp: gap_init_def)
  have s2: "foldl (gap_step hist thr) gap_init [p..<Suc 70] = gap_init\<lparr>gapStart := int p\<rparr>"
    using assms(2,4) by (intro scan_gap) (auto simp: gap_init_def)
  have fold: "foldl (gap_step hist thr) gap_init [30..<Suc 70] = gap_init\<lparr>gapStart := int p\<rparr>"
    by (simp only: split foldl_append s1 s2)
  have "gap_close 70 (gap_init\<lparr>gapStart := int p\<rparr>) =
        \<lparr>bestStart = int p, bestEnd = 70, bestWidth = 70 - int p, gapStart = int p\<rparr>"
    using assms(2) by (simp add: gap_close_def gap_init_def Let_def)
  then show ?thesis by (simp only: minB_eq maxB_eq fold)
qed

lemma scan_no_gap:
  assumes "\<forall>b. 30 \<le> b \<and> b \<le> 70 \<longrightarrow> thr < hist ! b"
  shows "gap_close maxB (foldl (gap_step hist thr) gap_init [minB..<Suc maxB]) = gap_init"
proof -
  have fold: "foldl (gap_step hist thr) gap_init [30..<Suc 70] = gap_init"
    using assms by (intro scan_dense) (auto simp: gap_init_def)
  have "gap_close 70 gap_init = gap_init" by (simp add: gap_close_def gap_init_def)
  then show ?thesis by (simp only: minB_eq maxB_eq fold)
qed


lemma Max_profile:
  "Max (set (replicate 47 a @ replicate 13 0 @ replicate 40 c)) = max a (c::nat)"
  by (simp add: max.commute max.left_commute)

lemma detectColumnSplit_unfold:
  assumes "histogram m pw = h" "Max (set h) = mc" "mc \<noteq> 0"
    and "gap_close maxB (foldl (gap_step h (emptyThreshold mc)) gap_init [minB..<Suc maxB]) = g"
  shows "detectColumnSplit m pw =
     (if bestWidth g < 3 then None
      else if sum_list (take (nat (bestStart g)) h) < 5 \<or> sum_list (drop (nat (bestEnd g)) h) < 5 then None
      else Some ((real_of_int (bestStart g + bestEnd g) / 2) * bucketWidth pw))"
  unfolding detectColumnSplit_def Let_def assms(1) assms(2) assms(4) using assms(3) by simp

lemma profile_nth:
  fixes a c :: nat
  shows "b < 47 \<Longrightarrow> (replicate 47 a @ replicate 13 0 @ replicate 40 c) ! b = a"
    and "47 \<le> b \<Longrightarrow> b < 60 \<Longrightarrow> (replicate 47 a @ replicate 13 0 @ replicate 40 c) ! b = 0"
    and "60 \<le> b \<Longrightarrow> b < 100 \<Longrightarrow> (replicate 47 a @ replicate 13 0 @ replicate 40 c) ! b = c"
  by (auto simp: nth_append)

lemma profile_split_balanced:
  assumes h: "histogram m pw = replicate 47 a @ replicate 13 0 @ replicate 40 c"
    and a: "5 \<le> a" and c: "5 \<le> c"
    and t: "emptyThreshold (max a c) < min a c"
  shows "detectColumnSplit m pw = Some (real_of_int (47 + 60) / 2 * bucketWidth pw)"
proof -
  let ?h = "replicate 47 a @ replicate 13 0 @ replicate 40 c"
  let ?t = "emptyThreshold (max a c)"
  have mx: "Max (set ?h) = max a c" by (rule Max_profile)
  have pos: "max a c \<noteq> 0" using a by simp
  have "gap_close maxB (foldl (gap_step ?h ?t) gap_init [minB..<Suc maxB]) =
       \<lparr>bestStart = int 47, bestEnd = int 60, bestWidth = int 60 - int 47, gapStart = - 1\<rparr>"
    using t by (intro scan_profile_closed) (auto simp: profile_nth)
  from detectColumnSplit_unfold[OF h mx pos this] show ?thesis using a c
    by (simp add: sum_list_replicate)
qed

lemma profile_split_unbalanced:
  assumes h: "histogram m pw = replicate 47 a @ replicate 13 0 @ replicate 40 c"
    and a: "5 \<le> a"
    and t: "a \<le> emptyThreshold (max a c)" "emptyThreshold (max a c) < c"
  shows "detectColumnSplit m pw = Some (real_of_int (30 + 60) / 2 * bucketWidth pw)"
proof -
  let ?h = "replicate 47 a @ replicate 13 0 @ replicate 40 c"
  let ?t = "emptyThreshold (max a c)"
  have mx: "Max (set ?h) = max a c" by (rule Max_profile)
  have pos: "max a c \<noteq> 0" using a by simp
  have c: "5 \<le> c" using a t by simp
  have "\<And>b. 30 \<le> b \<Longrightarrow> b < 60 \<Longrightarrow> ?h ! b \<le> ?t"
  proof -
    fix b :: nat assume "30 \<le> b" "b < 60"
    then show "?h ! b \<le> ?t" using t profile_nth(1)[of b a c] profile_nth(2)[of b a c]
      by (cases "b < 47") auto
  qed
  then have "gap_close maxB (foldl (gap_step ?h ?t) gap_init [minB..<Suc maxB]) =
     \<lparr>bestStart = int 30, bestEnd = int 60, bestWidth = int 60 - int 30, gapStart = - 1\<rparr>"
    using t by (intro scan_profile_closed) (auto simp: profile_nth)
  from detectColumnSplit_unfold[OF h mx pos this] show ?thesis using a c
    by (simp add: sum_list_replicate)
qed

lemma two_column_histogram:
  assumes regions: "\<forall>it \<in> set m. trim_truthy (str it) \<longrightarrow>
             (0 \<le> left it \<and> left it + width it \<le> 280) \<or> (360 \<le> left it \<and> left it + width it \<le> 600)"
    and lfill: "\<forall>b < 47. bucketYSets m 600 ! b = L"
    and rfill: "\<forall>b. 60 \<le> b \<and> b < 100 \<longrightarrow> bucketYSets m 600 ! b = R"
  shows "histogram m 600 = replicate 47 (card L) @ replicate 13 0 @ replicate 40 (card R)"
proof (rule nth_equalityI)
  show "length (histogram m 600) = length (replicate 47 (card L) @ replicate 13 0 @ replicate 40 (card R))"
    by (simp add: length_histogram)
next
  fix b assume "b < length (histogram m 600)"
  then have b: "b < 100" by (simp add: length_histogram)
  have hb: "histogram m 600 ! b = card (bucketYSets m 600 ! b)"
    using b by (simp add: histogram_def length_bucketYSets)
  consider "b < 47" | "47 \<le> b" "b < 60" | "60 \<le> b" by linarith
  then show "histogram m 600 ! b = (replicate 47 (card L) @ replicate 13 0 @ replicate 40 (card R)) ! b"
  proof cases
    case 1
    then show ?thesis using lfill hb by (simp add: nth_append)
  next
    case 2
    have "\<not> covers 600 it b" if "it \<in> set m" for it
    proof
      assume cov: "covers 600 it b"
      then have t: "trim_truthy (str it)" by (simp add: covers_def)
      from regions that t consider "left it + width it \<le> 280" | "360 \<le> left it" by blast
      then show False
      proof cases
        case 1
        then have "(left it + width it) / 6 < 47" by simp
        then have "\<lfloor>(left it + width it) / 6\<rfloor> < 47" by (simp add: floor_less_iff)
        then have "bucket_end 600 it < 47" by (simp add: bucket_end_def bucketWidth_def NUM_BUCKETS_def)
        with cov 2 show False by (simp add: covers_def)
      next
        case 2
        then have "60 \<le> left it / 6" by simp
        then have "60 \<le> \<lfloor>left it / 6\<rfloor>" by (simp add: le_floor_iff)
        then have "60 \<le> bucket_start 600 it" by (simp add: bucket_start_def bucketWidth_def NUM_BUCKETS_def)
        with cov \<open>b < 60\<close> show False by (simp add: covers_def)
      qed
    qed
    then have "bucketYSets m 600 ! b = {}" using b by (auto simp: nth_bucketYSets)
    then show ?thesis using hb 2 by (simp add: nth_append)
  next
    case 3
    then show ?thesis using rfill hb b by (simp add: nth_append)
  qed
qed

lemma uniform_histogram:
  assumes "\<forall>b < 100. bucketYSets m pw ! b = B"
  shows "histogram m pw = replicate 100 (card B)"
  using assms by (intro nth_equalityI) (simp_all add: length_histogram histogram_def length_bucketYSets)

lemma uniform_split:
  assumes h: "histogram m pw = replicate 100 n"
  shows "detectColumnSplit m pw =
           (if 3 \<le> n then None else if 0 < n then Some (real_of_int (30 + 70) / 2 * bucketWidth pw) else None)"
proof -
  let ?h = "replicate 100 n"
  have mx: "Max (set ?h) = n" by simp
  have thr: "emptyThreshold n = (if n < 14 then 2 else n * 15 div 100)"
    by (auto simp: emptyThreshold_eq)
  show ?thesis
  proof (cases "3 \<le> n")
    case True
    then have "emptyThreshold n < n" by (auto simp: emptyThreshold_eq)
    then have "gap_close maxB (foldl (gap_step ?h (emptyThreshold n)) gap_init [minB..<Suc maxB]) = gap_init"
      by (intro scan_no_gap) auto
    moreover have "n \<noteq> 0" using True by simp
    ultimately show ?thesis using True detectColumnSplit_unfold[OF h mx, of gap_init]
      by (simp add: gap_init_def)
  next
    case False
    show ?thesis
    proof (cases "n = 0")
      case True
      then show ?thesis by (simp add: detectColumnSplit_def h Let_def)
    next
      case n0: False
      have "n \<le> emptyThreshold n" using False by (simp add: emptyThreshold_eq)
      then have g: "gap_close maxB (foldl (gap_step ?h (emptyThreshold n)) gap_init [minB..<Suc maxB]) =
         \<lparr>bestStart = int 30, bestEnd = 70, bestWidth = 70 - int 30, gapStart = int 30\<rparr>"
        by (intro scan_profile_open) auto
      have "sum_list (take 30 ?h) = 30 * n" "sum_list (drop 70 ?h) = 30 * n"
        by (simp_all add: sum_list_replicate)
      with detectColumnSplit_unfold[OF h mx n0 g] show ?thesis using False n0
        by (simp add: sum_list_replicate)
    qed
  qed
qed


lemma yBand_fixture: "yBand (fixture_run l (20 * real i) w) = 20 * int i"
proof -
  have "\<lfloor>4 * real i + 1 / 2\<rfloor> = 4 * int i"
    by (rule floor_unique) simp_all
  then show ?thesis by (simp add: yBand_def fixture_run_def js_round_def)
qed

lemma covers_left_fixture: "covers 600 (fixture_run 0 t 280) b \<longleftrightarrow> b < 47"
proof -
  have "\<lfloor>(280::real) / 6\<rfloor> = 46" by (simp add: floor_eq_iff)
  then show ?thesis
    by (auto simp: covers_def fixture_run_def bucket_start_def bucket_end_def bucketWidth_def
        NUM_BUCKETS_def trim_truthy_def js_whitespace_def)
qed

lemma covers_right_fixture: "b < 100 \<Longrightarrow> covers 600 (fixture_run 360 t 240) b \<longleftrightarrow> 60 \<le> b"
  by (auto simp: covers_def fixture_run_def bucket_start_def bucket_end_def bucketWidth_def
        NUM_BUCKETS_def trim_truthy_def js_whitespace_def)

lemma covers_full_fixture: "b < 100 \<Longrightarrow> covers 600 (fixture_run 0 t 600) b"
  by (auto simp: covers_def fixture_run_def bucket_start_def bucket_end_def bucketWidth_def
        NUM_BUCKETS_def trim_truthy_def js_whitespace_def)

lemma bands_two_column_fixture:
  assumes "b < 100"
  shows "bucketYSets (two_column_fixture nl nr) 600 ! b =
     (if b < 47 then (\<lambda>i. 20 * int i) ` {0..<nl}
      else if b < 60 then {} else (\<lambda>i. 20 * int i) ` {0..<nr})"
proof -
  let ?l = "(\<lambda>i. fixture_run 0 (20 * real i) 280) ` {0..<nl}"
  let ?r = "(\<lambda>i. fixture_run 360 (20 * real i) 240) ` {0..<nr}"
  have "{it \<in> set (two_column_fixture nl nr). covers 600 it b} =
          (if b < 47 then ?l else if b < 60 then {} else ?r)"
    using assms
    by (auto simp: two_column_fixture_def covers_left_fixture covers_right_fixture)
  then show ?thesis using assms
    by (simp add: nth_bucketYSets image_image yBand_fixture)
qed

lemma bands_uniform_fixture:
  assumes "b < 100"
  shows "bucketYSets (uniform_fixture n) 600 ! b = (\<lambda>i. 20 * int i) ` {0..<n}"
proof -
  have "{it \<in> set (uniform_fixture n). covers 600 it b} =
          (\<lambda>i. fixture_run 0 (20 * real i) 600) ` {0..<n}"
    using assms by (auto simp: uniform_fixture_def covers_full_fixture)
  then show ?thesis using assms
    by (simp add: nth_bucketYSets image_image yBand_fixture)
qed

lemma card_bands: "card ((\<lambda>i. 20 * int i) ` {0..<n}) = n"
  by (simp add: card_image inj_on_def)

lemma regions_two_column_fixture:
  "\<forall>it \<in> set (two_column_fixture nl nr). trim_truthy (str it) \<longrightarrow>
     (0 \<le> left it \<and> left it + width it \<le> 280) \<or> (360 \<le> left it \<and> left it + width it \<le> 600)"
  by (auto simp: two_column_fixture_def fixture_run_def)

lemma two_column_split:
  assumes regions: "\<forall>it \<in> set m. trim_truthy (str it) \<longrightarrow>
             (0 \<le> left it \<and> left it + width it \<le> 280) \<or> (360 \<le> left it \<and> left it + width it \<le> 600)"
    and lfill: "\<forall>b < 47. bucketYSets m 600 ! b = L"
    and rfill: "\<forall>b. 60 \<le> b \<and> b < 100 \<longrightarrow> bucketYSets m 600 ! b = R"
    and "5 \<le> card L" "5 \<le> card R"
    and "emptyThreshold (max (card L) (card R)) < min (card L) (card R)"
  shows "detectColumnSplit m 600 = Some 321"
  using profile_split_balanced[OF two_column_histogram[OF regions lfill rfill] assms(4-6)]
  by (simp add: bucketWidth_def NUM_BUCKETS_def)

lemma uniform_null:
  assumes "\<forall>b < 100. bucketYSets m pw ! b = B" "3 \<le> card B"
  shows "detectColumnSplit m pw = None"
  using uniform_split[OF uniform_histogram[OF assms(1)]] assms(2) by simp

lemma uniform_two_bands_split: "detectColumnSplit (uniform_fixture 2) 600 = Some 300"
proof -
  have "\<forall>b < 100. bucketYSets (uniform_fixture 2) 600 ! b = (\<lambda>i. 20 * int i) ` {0..<2}"
    by (simp add: bands_uniform_fixture)
  from uniform_histogram[OF this] have "histogram (uniform_fixture 2) 600 = replicate 100 2"
    by (simp only: card_bands)
  from uniform_split[OF this] show ?thesis by (simp add: bucketWidth_def NUM_BUCKETS_def)
qed

lemma unbalanced_columns_split: "detectColumnSplit (two_column_fixture 5 34) 600 = Some 270"
proof -
  have l: "\<forall>b < 47. bucketYSets (two_column_fixture 5 34) 600 ! b = (\<lambda>i. 20 * int i) ` {0..<5}"
    by (simp add: bands_two_column_fixture)
  have r: "\<forall>b. 60 \<le> b \<and> b < 100 \<longrightarrow>
             bucketYSets (two_column_fixture 5 34) 600 ! b = (\<lambda>i. 20 * int i) ` {0..<34}"
    by (simp add: bands_two_column_fixture)
  from two_column_histogram[OF regions_two_column_fixture l r]
  have "histogram (two_column_fixture 5 34) 600 = replicate 47 5 @ replicate 13 0 @ replicate 40 34"
    by (simp only: card_bands)
  from profile_split_unbalanced[OF this] show ?thesis
    by (simp add: emptyThreshold_eq bucketWidth_def NUM_BUCKETS_def)
qed

lemma bucketYSets_two_column_fixture:
  "bucketYSets (two_column_fixture nl nr) 600 =
     replicate 47 ((\<lambda>i. 20 * int i) ` {0..<nl}) @ replicate 13 {} @
     replicate 40 ((\<lambda>i. 20 * int i) ` {0..<nr})"
proof (rule nth_equalityI)
  show "length (bucketYSets (two_column_fixture nl nr) 600) =
        length (replicate 47 ((\<lambda>i. 20 * int i) ` {0..<nl}) @ replicate 13 {} @
                replicate 40 ((\<lambda>i. 20 * int i) ` {0..<nr}))"
    by (simp add: length_bucketYSets)
next
  fix b assume "b < length (bucketYSets (two_column_fixture nl nr) 600)"
  then have "b < 100" by (simp add: length_bucketYSets)
  then show "bucketYSets (two_column_fixture nl nr) 600 ! b =
        (replicate 47 ((\<lambda>i. 20 * int i) ` {0..<nl}) @ replicate 13 {} @
         replicate 40 ((\<lambda>i. 20 * int i) ` {0..<nr})) ! b"
    by (simp add: bands_two_column_fixture nth_append)
qed

lemma bucketYSets_uniform_fixture:
  "bucketYSets (uniform_fixture n) 600 = replicate 100 ((\<lambda>i. 20 * int i) ` {0..<n})"
  by (rule nth_equalityI) (simp_all add: length_bucketYSets bands_uniform_fixture)

lemma balanced_columns_split: "detectColumnSplit (two_column_fixture 5 5) 600 = Some 321"
  using two_column_split[OF regions_two_column_fixture, of 5 5 "(\<lambda>i. 20 * int i) ` {0..<5}" "(\<lambda>i. 20 * int i) ` {0..<5}"]
  by (simp add: bands_two_column_fixture card_bands emptyThreshold_eq)

subsection \<open>Deduplication keeps the last run at each position\<close>

lemma hits_snoc:
  "hits k (xs @ [x]) = (if trim_truthy (str x) \<and> pos_key x = k then hits k xs @ [x] else hits k xs)"
  by (simp add: hits_def)

lemma dedup_inv_init: "dedup_inv [] ([], Map.empty)"
  by (simp add: dedup_inv_def hits_def)

lemma dedup_inv_step:
  assumes "dedup_inv xs st"
  shows "dedup_inv (xs @ [x]) (dedup_step st x)"
proof (cases "trim_truthy (str x)")
  case False
  then show ?thesis using assms by (simp add: dedup_step_def dedup_inv_def hits_snoc)
next
  case True
  obtain d seen where st: "st = (d, seen)" by (cases st)
  from assms have inv:
    "(\<forall>k i. seen k = Some i \<longleftrightarrow> (i < length d \<and> pos_key (d ! i) = k)) \<and>
     (\<forall>k. seen k = None \<longleftrightarrow> hits k xs = []) \<and>
     (\<forall>k i. seen k = Some i \<longrightarrow> d ! i = last (hits k xs))"
    unfolding dedup_inv_def st fst_conv snd_conv .
  have i1: "\<And>k i. seen k = Some i \<longleftrightarrow> (i < length d \<and> pos_key (d ! i) = k)"
    using inv by blast
  have i2: "\<And>k. seen k = None \<longleftrightarrow> hits k xs = []"
    using inv by blast
  have i3: "\<And>k i. seen k = Some i \<Longrightarrow> d ! i = last (hits k xs)"
    using inv by blast
  show ?thesis
  proof (cases "seen (pos_key x)")
    case None
    then have step: "dedup_step st x = (d @ [x], seen(pos_key x \<mapsto> length d))"
      using True st by (simp add: dedup_step_def)
    have nokx: "pos_key (d ! i) \<noteq> pos_key x" if "i < length d" for i
    proof
      assume "pos_key (d ! i) = pos_key x"
      with that have "seen (pos_key x) = Some i" using i1 by simp
      with None show False by simp
    qed
    have a: "(seen(pos_key x \<mapsto> length d)) k = Some i \<longleftrightarrow>
              (i < length (d @ [x]) \<and> pos_key ((d @ [x]) ! i) = k)" for k i
    proof (cases "i < length d")
      case True
      then show ?thesis using i1[of k i] nokx[OF True] by (simp add: nth_append)
    next
      case False
      show ?thesis
      proof (cases "i = length d")
        case True
        then show ?thesis using i1[of k "length d"] by auto
      next
        case f: False
        then show ?thesis using False i1[of k i] by simp
      qed
    qed
    have b: "(seen(pos_key x \<mapsto> length d)) k = None \<longleftrightarrow> hits k (xs @ [x]) = []" for k
      using i2[of k] True by (simp add: hits_snoc)
    have c: "\<And>k i. (seen(pos_key x \<mapsto> length d)) k = Some i \<Longrightarrow>
              (d @ [x]) ! i = last (hits k (xs @ [x]))"
    proof -
      fix k i assume h: "(seen(pos_key x \<mapsto> length d)) k = Some i"
      show "(d @ [x]) ! i = last (hits k (xs @ [x]))"
      proof (cases "k = pos_key x")
        case True
        with h have "i = length d" by simp
        then show ?thesis using True \<open>trim_truthy (str x)\<close> by (simp add: hits_snoc)
      next
        case False
        with h have s: "seen k = Some i" by simp
        then have "i < length d" using i1 by simp
        then show ?thesis using False i3[OF s] by (simp add: hits_snoc nth_append)
      qed
    qed
    show ?thesis unfolding step dedup_inv_def fst_conv snd_conv
      by (intro conjI allI impI) (rule a, rule b, rule c)
  next
    case (Some i0)
    then have step: "dedup_step st x = (d[i0 := x], seen)"
      using True st by (simp add: dedup_step_def)
    from Some i1 have i0: "i0 < length d" "pos_key (d ! i0) = pos_key x" by simp_all
    have a: "seen k = Some i \<longleftrightarrow> (i < length (d[i0 := x]) \<and> pos_key (d[i0 := x] ! i) = k)" for k i
      using i1[of k i] i0 by (cases "i = i0") (auto simp: nth_list_update)
    have b: "seen k = None \<longleftrightarrow> hits k (xs @ [x]) = []" for k
      using i2[of k] True Some by (cases "k = pos_key x") (simp_all add: hits_snoc)
    have c: "\<And>k i. seen k = Some i \<Longrightarrow> d[i0 := x] ! i = last (hits k (xs @ [x]))"
    proof -
      fix k i assume s: "seen k = Some i"
      show "d[i0 := x] ! i = last (hits k (xs @ [x]))"
      proof (cases "k = pos_key x")
        case True
        with s Some have "i = i0" by simp
        then show ?thesis using True \<open>trim_truthy (str x)\<close> i0 by (simp add: hits_snoc)
      next
        case False
        have "i \<noteq> i0" using i1[of k i] s i0 False by auto
        then show ?thesis using False i3[OF s] by (simp add: hits_snoc)
      qed
    qed
    show ?thesis unfolding step dedup_inv_def fst_conv snd_conv
      by (intro conjI allI impI) (rule a, rule b, rule c)
  qed
qed

lemma dedup_inv_foldl:
  "dedup_inv xs st \<Longrightarrow> dedup_inv (xs @ ys) (foldl dedup_step st ys)"
proof (induction ys arbitrary: xs st)
  case Nil
  then show ?case by simp
next
  case (Cons y ys)
  from Cons.IH[OF dedup_inv_step[OF Cons.prems, of y]] show ?case by simp
qed

lemma dedup_inv_final: "dedup_inv mapped (foldl dedup_step ([], Map.empty) mapped)"
  using dedup_inv_foldl[OF dedup_inv_init, of mapped] by simp

lemma filter_single:
  assumes "i < length d" "\<forall>j < length d. P (d ! j) \<longleftrightarrow> j = i"
  shows "filter P d = [d ! i]"
proof -
  have d: "d = take i d @ d ! i # drop (Suc i) d"
    using assms(1) by (rule id_take_nth_drop)
  have "filter P (take i d) = []"
    using assms by (auto simp: filter_empty_conv in_set_conv_nth)
  moreover have "filter P (drop (Suc i) d) = []"
    using assms by (auto simp: filter_empty_conv in_set_conv_nth)
  moreover have "P (d ! i)" using assms by simp
  ultimately have "filter P (take i d @ d ! i # drop (Suc i) d) = [d ! i]" by simp
  with d show ?thesis by simp
qed

lemma last_filter_nth:
  assumes "j < length xs" "P (xs ! j)" "\<forall>k. j < k \<and> k < length xs \<longrightarrow> \<not> P (xs ! k)"
  shows "last (filter P xs) = xs ! j"
proof -
  have d: "xs = take j xs @ xs ! j # drop (Suc j) xs"
    using assms(1) by (rule id_take_nth_drop)
  have "filter P (drop (Suc j) xs) = []"
    using assms by (auto simp: filter_empty_conv in_set_conv_nth)
  then have "filter P (take j xs @ xs ! j # drop (Suc j) xs) = filter P (take j xs) @ [xs ! j]"
    using assms(2) by simp
  with d have "filter P xs = filter P (take j xs) @ [xs ! j]" by simp
  then show ?thesis by simp
qed

lemma dedupe_position:
  assumes "hits k mapped \<noteq> []"
  shows "filter (\<lambda>y. pos_key y = k) (dedupe mapped) = [last (hits k mapped)]"
proof -
  obtain d seen where st: "foldl dedup_step ([], Map.empty) mapped = (d, seen)"
    by (cases "foldl dedup_step ([], Map.empty) mapped")
  from dedup_inv_final[of mapped] have inv:
    "(\<forall>k i. seen k = Some i \<longleftrightarrow> (i < length d \<and> pos_key (d ! i) = k)) \<and>
     (\<forall>k. seen k = None \<longleftrightarrow> hits k mapped = []) \<and>
     (\<forall>k i. seen k = Some i \<longrightarrow> d ! i = last (hits k mapped))"
    unfolding dedup_inv_def st fst_conv snd_conv .
  have i1: "\<And>k i. seen k = Some i \<longleftrightarrow> (i < length d \<and> pos_key (d ! i) = k)"
    using inv by blast
  have i2: "\<And>k. seen k = None \<longleftrightarrow> hits k mapped = []"
    using inv by blast
  have i3: "\<And>k i. seen k = Some i \<Longrightarrow> d ! i = last (hits k mapped)"
    using inv by blast
  from assms i2 obtain i where s: "seen k = Some i" by (cases "seen k") auto
  then have "i < length d" using i1 by simp
  moreover have "\<forall>j < length d. pos_key (d ! j) = k \<longleftrightarrow> j = i"
  proof (intro allI impI iffI)
    fix j assume "j < length d" "pos_key (d ! j) = k"
    then have "seen k = Some j" using i1 by simp
    with s show "j = i" by simp
  next
    fix j assume "j < length d" "j = i"
    then show "pos_key (d ! j) = k" using i1[of k i] s by simp
  qed
  ultimately have "filter (\<lambda>y. pos_key y = k) d = [d ! i]" by (rule filter_single)
  then show ?thesis using i3[OF s] st by (simp add: dedupe_def)
qed


subsection \<open>Claims on layout reconstruction\<close>

text \<open>
  \<^bold>\<open>C3.\<close> For two runs of the extraction list that are not white space and whose screen
  positions round to the same \<open>(left, top)\<close> pixel, the deduplication step of
  \<^verbatim>\<open>groupIntoLines\<close> keeps exactly one run at that position, the one that comes last in
  extraction order, so the earlier run of the pair is dropped; when no run after the later
  one rounds to the same pixel, the run kept is the later one of the pair.
\<close>

theorem dedupe_keeps_later:
  assumes "i < j" "j < length mapped"
    and "trim_truthy (str (mapped ! i))" "trim_truthy (str (mapped ! j))"
    and "pos_key (mapped ! i) = pos_key (mapped ! j)"
  shows "filter (\<lambda>y. pos_key y = pos_key (mapped ! j)) (dedupe mapped) =
           [last (filter (\<lambda>x. trim_truthy (str x) \<and> pos_key x = pos_key (mapped ! j)) mapped)] \<and>
         ((\<forall>k. j < k \<and> k < length mapped \<and> trim_truthy (str (mapped ! k)) \<longrightarrow>
               pos_key (mapped ! k) \<noteq> pos_key (mapped ! j)) \<longrightarrow>
          filter (\<lambda>y. pos_key y = pos_key (mapped ! j)) (dedupe mapped) = [mapped ! j])"
proof -
  let ?k = "pos_key (mapped ! j)"
  have "mapped ! j \<in> set (hits ?k mapped)"
    using assms(2,4) by (simp add: hits_def)
  then have ne: "hits ?k mapped \<noteq> []" by auto
  have main: "filter (\<lambda>y. pos_key y = ?k) (dedupe mapped) = [last (hits ?k mapped)]"
    using ne by (rule dedupe_position)
  have "last (hits ?k mapped) = mapped ! j"
    if "\<forall>k. j < k \<and> k < length mapped \<and> trim_truthy (str (mapped ! k)) \<longrightarrow>
               pos_key (mapped ! k) \<noteq> ?k"
    unfolding hits_def using assms(2,4) that by (intro last_filter_nth) auto
  with main show ?thesis by (simp add: hits_def)
qed

lemma dedup_example_facts:
  "length dedup_example = 3"
  "trim_truthy (str (dedup_example ! 0))" "trim_truthy (str (dedup_example ! 2))"
  "pos_key (dedup_example ! 0) = (0, 0)" "pos_key (dedup_example ! 2) = (0, 0)"
  by (simp_all add: dedup_example_def fixture_run_def trim_truthy_def js_whitespace_def
      pos_key_def js_round_def)

theorem dedupe_keeps_later_witness:
  "(0::nat) < 2 \<and> 2 < length dedup_example \<and>
   trim_truthy (str (dedup_example ! 0)) \<and> trim_truthy (str (dedup_example ! 2)) \<and>
   pos_key (dedup_example ! 0) = pos_key (dedup_example ! 2) \<and>
   filter (\<lambda>y. pos_key y = pos_key (dedup_example ! 2)) (dedupe dedup_example) = [dedup_example ! 2]"
proof -
  have h: "(0::nat) < 2" "2 < length dedup_example"
    "trim_truthy (str (dedup_example ! 0))" "trim_truthy (str (dedup_example ! 2))"
    "pos_key (dedup_example ! 0) = pos_key (dedup_example ! 2)"
    by (simp_all add: dedup_example_facts)
  have last: "\<forall>k. 2 < k \<and> k < length dedup_example \<and> trim_truthy (str (dedup_example ! k)) \<longrightarrow>
        pos_key (dedup_example ! k) \<noteq> pos_key (dedup_example ! 2)"
    using dedup_example_facts(1) by auto
  from dedupe_keeps_later[OF h] last h show ?thesis by blast
qed

text \<open>
  \<^bold>\<open>C4\<close> (as stated, refuted). Two runs spanning \<open>[0, 600]\<close> on two bands give every bucket
  two bands, which is within the gap threshold \<open>max 2 \<dots>\<close>: the whole central band counts as
  a gap and the split 300 is returned instead of \<^verbatim>\<open>null\<close>. Five bands filling \<open>[0, 280]\<close>
  beside thirty-four bands filling \<open>[360, 600]\<close> put the left column itself below the
  threshold \<open>\<lfloor>34 \<times> 0.15\<rfloor> = 5\<close>: the gap found is buckets 30 to 59 and the split is 270.
\<close>

theorem detectColumnSplit_fixture_counterexample:
  "detectColumnSplit (uniform_fixture 2) 600 = Some 300 \<and>
   detectColumnSplit (two_column_fixture 5 34) 600 = Some 270"
  using uniform_two_bands_split unbalanced_columns_split by simp

text \<open>
  \<^bold>\<open>C4\<close> (amended). On a page of width 600 whose runs all lie within \<open>[0, 280]\<close> or within
  \<open>[360, 600]\<close>, where every bucket of the left column holds the same set \<open>L\<close> of bands and
  every bucket of the right column the same set \<open>R\<close>, each of at least 5 bands and each
  larger than the gap threshold \<open>max 2 \<lfloor>0.15 \<times> max |L| |R|\<rfloor>\<close>, \<^verbatim>\<open>detectColumnSplit\<close>
  returns 321, which lies in \<open>[300, 340]\<close>. On a page where every bucket holds the same set of
  at least 3 bands it returns \<^verbatim>\<open>null\<close>.
\<close>

theorem detectColumnSplit_fixture:
  "((\<forall>it \<in> set m. trim_truthy (str it) \<longrightarrow>
        (0 \<le> left it \<and> left it + width it \<le> 280) \<or> (360 \<le> left it \<and> left it + width it \<le> 600)) \<and>
    (\<forall>b < 47. bucketYSets m 600 ! b = L) \<and>
    (\<forall>b. 60 \<le> b \<and> b < 100 \<longrightarrow> bucketYSets m 600 ! b = R) \<and>
    5 \<le> card L \<and> 5 \<le> card R \<and>
    emptyThreshold (max (card L) (card R)) < min (card L) (card R)
    \<longrightarrow> detectColumnSplit m 600 = Some 321 \<and> (300::real) \<le> 321 \<and> (321::real) \<le> 340) \<and>
   ((\<forall>b < 100. bucketYSets u pageWidth ! b = B) \<and> 3 \<le> card B
    \<longrightarrow> detectColumnSplit u pageWidth = None)"
  using two_column_split[of m L R] uniform_null[of u pageWidth B] by simp

theorem detectColumnSplit_fixture_witness:
  "bucketYSets (two_column_fixture 5 5) 600 =
     replicate 47 ((\<lambda>i. 20 * int i) ` {0..<5}) @ replicate 13 {} @
     replicate 40 ((\<lambda>i. 20 * int i) ` {0..<5}) \<and>
   card ((\<lambda>i. 20 * int i) ` {0..<5::nat}) = 5 \<and>
   emptyThreshold 5 = 2 \<and>
   detectColumnSplit (two_column_fixture 5 5) 600 = Some 321 \<and>
   bucketYSets (uniform_fixture 3) 600 = replicate 100 ((\<lambda>i. 20 * int i) ` {0..<3}) \<and>
   card ((\<lambda>i. 20 * int i) ` {0..<3::nat}) = 3 \<and>
   detectColumnSplit (uniform_fixture 3) 600 = None"
proof -
  have a: "\<forall>b < 47. bucketYSets (two_column_fixture 5 5) 600 ! b = (\<lambda>i. 20 * int i) ` {0..<5}"
    by (simp add: bands_two_column_fixture)
  have b: "\<forall>b. 60 \<le> b \<and> b < 100 \<longrightarrow>
        bucketYSets (two_column_fixture 5 5) 600 ! b = (\<lambda>i. 20 * int i) ` {0..<5}"
    by (simp add: bands_two_column_fixture)
  have c: "\<forall>b < 100. bucketYSets (uniform_fixture 3) 600 ! b = (\<lambda>i. 20 * int i) ` {0..<3}"
    by (simp add: bands_uniform_fixture)
  have d: "card ((\<lambda>i. 20 * int i) ` {0..<5::nat}) = 5" "card ((\<lambda>i. 20 * int i) ` {0..<3::nat}) = 3"
    by (rule card_bands)+
  have e: "emptyThreshold 5 = 2" by (simp add: emptyThreshold_eq)
  from detectColumnSplit_fixture[of "two_column_fixture 5 5" "(\<lambda>i. 20 * int i) ` {0..<5}"
      "(\<lambda>i. 20 * int i) ` {0..<5}" "uniform_fixture 3" 600 "(\<lambda>i. 20 * int i) ` {0..<3}"]
    regions_two_column_fixture[of 5 5] a b c d e
  have r: "detectColumnSplit (two_column_fixture 5 5) 600 = Some 321"
    "detectColumnSplit (uniform_fixture 3) 600 = None" by simp_all
  show ?thesis
    using r d e bucketYSets_two_column_fixture[of 5 5] bucketYSets_uniform_fixture[of 3] by simp
qed

text \<open>
  \<^bold>\<open>C10.\<close> For every list of mapped run items and every positive page width,
  \<^verbatim>\<open>detectColumnSplit\<close> (a total function: both of its iterations are bounded) returns either
  \<^verbatim>\<open>null\<close> or a split coordinate within \<open>[0.30 \<times> pageWidth, 0.70 \<times> pageWidth]\<close>; it returns
  \<^verbatim>\<open>null\<close> when no item of the list has text other than white space.
\<close>

theorem detectColumnSplit_central_band:
  assumes "0 < pageWidth"
  shows "(detectColumnSplit mapped pageWidth = None \<or>
          (\<exists>x. detectColumnSplit mapped pageWidth = Some x \<and>
               (30 / 100) * pageWidth \<le> x \<and> x \<le> (70 / 100) * pageWidth)) \<and>
         ((\<forall>it \<in> set mapped. \<not> trim_truthy (str it)) \<longrightarrow> detectColumnSplit mapped pageWidth = None)"
proof -
  have "(30 / 100) * pageWidth \<le> x \<and> x \<le> (70 / 100) * pageWidth"
    if "detectColumnSplit mapped pageWidth = Some x" for x
    using split_in_band[OF assms that] .
  then have "detectColumnSplit mapped pageWidth = None \<or>
          (\<exists>x. detectColumnSplit mapped pageWidth = Some x \<and>
               (30 / 100) * pageWidth \<le> x \<and> x \<le> (70 / 100) * pageWidth)"
    by (cases "detectColumnSplit mapped pageWidth") simp_all
  then show ?thesis using blank_none[of mapped pageWidth] by blast
qed

theorem detectColumnSplit_central_band_witness:
  "(0::real) < 600 \<and>
   detectColumnSplit (two_column_fixture 5 5) 600 = Some 321 \<and>
   (30 / 100) * (600::real) \<le> 321 \<and> (321::real) \<le> (70 / 100) * 600 \<and>
   \<not> trim_truthy (str blank_run) \<and>
   detectColumnSplit [blank_run] 600 = None"
proof -
  have p: "(0::real) < 600" by simp
  have blank: "\<forall>it \<in> set [blank_run]. \<not> trim_truthy (str it)"
    by (simp add: blank_run_def trim_truthy_def js_whitespace_def)
  have s: "detectColumnSplit (two_column_fixture 5 5) 600 = Some 321"
    by (rule balanced_columns_split)
  from detectColumnSplit_central_band[OF p, of "[blank_run]"] blank
  have n: "detectColumnSplit [blank_run] 600 = None" by blast
  from detectColumnSplit_central_band[OF p, of "two_column_fixture 5 5"] s n blank
  show ?thesis by simp
qed

section \<open>Proofs: colour sampling\<close>

lemma text_count_step_excluded:
  "exceeds (pixel_lum p) thr \<Longrightarrow> text_count_step thr counts p = counts"
  by (simp add: text_count_step_def)

lemma foldl_text_count_filter:
  "foldl (text_count_step thr) counts data =
   foldl (text_count_step thr) counts (filter (\<lambda>p. \<not> exceeds (pixel_lum p) thr) data)"
  by (induction data arbitrary: counts) (simp_all add: text_count_step_excluded)

lemma foldl_text_count_none:
  "\<forall>p \<in> set data. pixel_alpha p < 128 \<or> exceeds (pixel_lum p) thr \<Longrightarrow>
   foldl (text_count_step thr) counts data = counts"
  by (induction data arbitrary: counts) (auto simp: text_count_step_def)

lemma most_frequent_Nil: "most_frequent [] = None"
  by (simp add: most_frequent_def)

lemma hex_digit_table:
  "list_all (\<lambda>n. hexval (hex_digit n) = Some n \<and> \<not> js_whitespace (hex_digit n)) [0..<16]"
  by code_simp

lemma hexval_hex_digit: "n < 16 \<Longrightarrow> hexval (hex_digit n) = Some n"
  using hex_digit_table by (simp add: list_all_iff)

lemma hex_digit_not_ws: "n < 16 \<Longrightarrow> \<not> js_whitespace (hex_digit n)"
  using hex_digit_table by (simp add: list_all_iff)

lemma hex_digit_neq:
  assumes "n < 16"
  shows "hex_digit n \<noteq> CHR ''-''" "hex_digit n \<noteq> CHR ''+''" "hex_digit n \<noteq> CHR ''x''"
    "hex_digit n \<noteq> CHR ''X''"
proof -
  have "hexval (CHR ''-'') = None" "hexval (CHR ''+'') = None" "hexval (CHR ''x'') = None"
    "hexval (CHR ''X'') = None"
    by (simp_all add: hexval_def)
  then show "hex_digit n \<noteq> CHR ''-''" "hex_digit n \<noteq> CHR ''+''" "hex_digit n \<noteq> CHR ''x''"
    "hex_digit n \<noteq> CHR ''X''"
    using hexval_hex_digit[OF assms] by auto
qed

lemma parseInt16_hex2:
  assumes "c < 256"
  shows "parseInt16 (hex2 c) = Some (real c)"
proof -
  have d: "c div 16 < 16" "c mod 16 < 16" using assms by simp_all
  have v: "16 * (c div 16) + c mod 16 = c" by simp
  show ?thesis
    using hexval_hex_digit[OF d(1)] hexval_hex_digit[OF d(2)] hex_digit_not_ws[OF d(1)]
      hex_digit_neq[OF d(1)] hex_digit_neq[OF d(2)] v
    by (simp add: parseInt16_def hex2_def hex_digits_value_def)
qed

lemma bgLum_hex_of_key:
  assumes "r < 256" "g < 256" "b < 256"
  shows "bgLum (hex_of_key (r, g, b)) = Some (luminance (real r) (real g) (real b))"
proof -
  have s: "slice (hex_of_key (r, g, b)) (Suc 0) 3 = hex2 r" "slice (hex_of_key (r, g, b)) 3 5 = hex2 g"
    "slice (hex_of_key (r, g, b)) 5 7 = hex2 b" "length (hex_of_key (r, g, b)) = 7"
    by (simp_all add: slice_def hex_of_key_def hex2_def)
  show ?thesis
    using assms by (simp add: bgLum_def s parseInt16_hex2) (simp add: hex_of_key_def)
qed

lemma gray_150: "hex_of_key (150, 150, 150) = ''#969696''"
  by (simp add: hex_of_key_def hex2_def hex_digit_def)

lemma skipThreshold_hex_of_key:
  "r < 256 \<Longrightarrow> g < 256 \<Longrightarrow> b < 256 \<Longrightarrow>
   skipThreshold (hex_of_key (r, g, b)) = Some (luminance (real r) (real g) (real b) - 40)"
  by (simp add: skipThreshold_def bgLum_hex_of_key)

lemma skipThreshold_gray: "skipThreshold ''#969696'' = Some 110"
  using skipThreshold_hex_of_key[of 150 150 150] by (simp add: gray_150 luminance_def)

text \<open>
  \<^bold>\<open>C5.\<close> The text colour sampler takes as skip threshold the luminance of the background
  minus 40, for every background \<^verbatim>\<open>#rrggbb\<close> that the background sampler can return; every
  pixel whose luminance exceeds the threshold is left out of the histogram of dark pixels
  (the histogram is that of the remaining pixels); when no pixel qualifies (every pixel is
  transparent or left out, or nothing can be read from the canvas), the result is
  \<^verbatim>\<open>#000000\<close>. With the background \<^verbatim>\<open>#969696\<close> of luminance 150 the threshold is 110, and a
  pixel of luminance 130 is not counted.
\<close>

theorem sampleTextColor_threshold:
  "(r < 256 \<and> g < 256 \<and> b < 256 \<longrightarrow>
      skipThreshold (hex_of_key (r, g, b)) = Some (luminance (real r) (real g) (real b) - 40)) \<and>
   (skipThreshold bgHex = Some t \<longrightarrow>
      colorCounts bgHex data = colorCounts bgHex (filter (\<lambda>p. pixel_lum p \<le> t) data)) \<and>
   ((case canvas of
       None \<Rightarrow> True
     | Some readback \<Rightarrow>
         (case readback x y w h of
            None \<Rightarrow> True
          | Some pixels \<Rightarrow>
              (\<forall>p \<in> set pixels. pixel_alpha p < 128 \<or> exceeds (pixel_lum p) (skipThreshold bgHex)))) \<longrightarrow>
      sampleTextColor canvas x y w h bgHex = ''#000000'') \<and>
   skipThreshold ''#969696'' = Some 110 \<and>
   pixel_lum (130, 130, 130, 255) = 130 \<and>
   colorCounts ''#969696'' [(130, 130, 130, 255)] = []"
proof -
  have a: "skipThreshold (hex_of_key (r, g, b)) = Some (luminance (real r) (real g) (real b) - 40)"
    if "r < 256 \<and> g < 256 \<and> b < 256"
    using that by (simp add: skipThreshold_hex_of_key)
  have b: "colorCounts bgHex data = colorCounts bgHex (filter (\<lambda>p. pixel_lum p \<le> t) data)"
    if "skipThreshold bgHex = Some t"
  proof -
    have "(\<lambda>p. \<not> exceeds (pixel_lum p) (Some t)) = (\<lambda>p. pixel_lum p \<le> t)"
      by (auto simp: exceeds_def)
    then show ?thesis
      using foldl_text_count_filter[of "Some t" "[]" data] that by (simp add: colorCounts_def)
  qed
  have c: "sampleTextColor canvas x y w h bgHex = ''#000000''"
    if "case canvas of
          None \<Rightarrow> True
        | Some readback \<Rightarrow>
            (case readback x y w h of
               None \<Rightarrow> True
             | Some pixels \<Rightarrow>
                 (\<forall>p \<in> set pixels. pixel_alpha p < 128 \<or> exceeds (pixel_lum p) (skipThreshold bgHex)))"
  proof (cases canvas)
    case None
    then show ?thesis by (simp add: sampleTextColor_def)
  next
    case (Some readback)
    show ?thesis
    proof (cases "readback x y w h")
      case None
      then show ?thesis using Some by (simp add: sampleTextColor_def)
    next
      case (Some pixels)
      with that \<open>canvas = Some readback\<close>
      have "\<forall>p \<in> set pixels. pixel_alpha p < 128 \<or> exceeds (pixel_lum p) (skipThreshold bgHex)"
        by simp
      from foldl_text_count_none[OF this, of "[]"] Some \<open>canvas = Some readback\<close>
      show ?thesis
        by (simp add: sampleTextColor_def colorCounts_def most_frequent_Nil)
    qed
  qed
  have d: "skipThreshold ''#969696'' = Some 110"
    by (rule skipThreshold_gray)
  have e: "pixel_lum (130, 130, 130, 255) = 130"
    by (simp add: pixel_lum_def luminance_def)
  have f: "colorCounts ''#969696'' [(130, 130, 130, 255)] = []"
    by (simp add: colorCounts_def d text_count_step_def exceeds_def e pixel_alpha_def)
  from a b c d e f show ?thesis by blast
qed

theorem sampleTextColor_threshold_witness:
  "(150::nat) < 256 \<and>
   skipThreshold (hex_of_key (150, 150, 150)) = Some 110 \<and>
   colorCounts ''#969696'' [(130, 130, 130, 255), (20, 20, 20, 255)] =
     colorCounts ''#969696'' [(20, 20, 20, 255)] \<and>
   exceeds (pixel_lum (130, 130, 130, 255)) (skipThreshold ''#969696'') \<and>
   sampleTextColor (const_canvas [(130, 130, 130, 255)]) 0 0 10 10 ''#969696'' = ''#000000''"
proof -
  have l: "pixel_lum (130, 130, 130, 255) = 130" "pixel_lum (20, 20, 20, 255) = 20"
    by (simp_all add: pixel_lum_def luminance_def)
  note t = sampleTextColor_threshold[where r = 150 and g = 150 and b = 150
      and bgHex = "''#969696''" and t = 110
      and data = "[(130, 130, 130, 255), (20, 20, 20, 255)]"
      and canvas = "const_canvas [(130, 130, 130, 255)]" and x = 0 and y = 0 and w = 10 and h = 10]
  have thr: "skipThreshold ''#969696'' = Some 110" using t by blast
  have "skipThreshold (hex_of_key (150, 150, 150)) = Some 110"
    using t by (simp add: luminance_def)
  moreover have "colorCounts ''#969696'' [(130, 130, 130, 255), (20, 20, 20, 255)] =
     colorCounts ''#969696'' [(20, 20, 20, 255)]"
    using t thr by (simp add: l)
  moreover have ex: "exceeds (pixel_lum (130, 130, 130, 255)) (skipThreshold ''#969696'')"
    by (simp add: thr l exceeds_def)
  moreover have "sampleTextColor (const_canvas [(130, 130, 130, 255)]) 0 0 10 10 ''#969696'' = ''#000000''"
    using t ex by (simp add: const_canvas_def)
  ultimately show ?thesis by simp
qed

section \<open>Proofs: image commit\<close>

lemma foldl_append_calls:
  "foldl (\<lambda>calls change. calls @ f change) acc xs = acc @ concat (map f xs)"
  by (induction xs arbitrary: acc) simp_all

lemma image_change_calls_eq: "image_change_calls lib r = region_calls lib r"
  by (cases "img_action r"; cases "img_replaceSrc r")
     (simp_all add: image_change_calls_def region_calls_def embed_replacement_def embedPng_def embedJpg_def)

lemma region_calls_none: "img_action r = ActionNone \<Longrightarrow> region_calls lib r = []"
  by (simp add: region_calls_def)

lemma concat_region_calls_filter:
  "concat (map (region_calls lib) (filter (\<lambda>ov. img_action ov \<noteq> ActionNone) xs)) =
   concat (map (region_calls lib) xs)"
  by (induction xs) (simp_all add: region_calls_none)

text \<open>
  \<^bold>\<open>C7\<close> (as stated, refuted). A PNG file uploaded under the MIME type \<^verbatim>\<open>image/jpeg\<close> is
  first tried as JPEG; the retry in the \<^verbatim>\<open>catch\<close> block is JPEG again, not the alternate
  codec, so the image is not drawn although PNG embedding accepts the bytes: only the cover
  rectangle is issued, where a retry with the alternate codec would also draw the image.
\<close>

theorem commitImageEdits_alternate_codec_counterexample:
  "commitImageEdits (Some signature_lib) [region_at 10 ActionReplace (Some mislabelled_png)] =
     Some [DrawRectangle 10 20 100 50 white] \<and>
   alternate_codec_calls signature_lib (region_at 10 ActionReplace (Some mislabelled_png)) =
     [DrawRectangle 10 20 100 50 white, DrawImage (PngImage [137, 80, 78, 71]) 10 20 100 50]"
  by (simp add: commitImageEdits_def region_at_def image_change_calls_def embed_replacement_def
      alternate_codec_calls_def mislabelled_png_def signature_lib_def embedPng_def embedJpg_def
      cover_rectangle_def)

text \<open>
  \<^bold>\<open>C7\<close> (amended). \<^verbatim>\<open>commitImageEdits\<close> returns \<^verbatim>\<open>null\<close> when every region has action
  \<open>none\<close>; otherwise the calls it issues are, region by region in order and each
  independently of the others: none for a region with action \<open>none\<close>; the cover rectangle of
  the region's original geometry for \<open>delete\<close>; for \<open>replace\<close> with a source the cover
  rectangle, then the image drawn at the same geometry when PNG embedding (attempted only
  when the MIME type contains \<open>png\<close>) or else JPEG embedding (the first attempt for other
  types, and the one retry in every case) succeeds; when embedding fails, only that
  region's image is missing.
\<close>

theorem commitImageEdits_calls:
  "commitImageEdits (Some lib) imageOverlays =
     (if \<forall>ov \<in> set imageOverlays. img_action ov = ActionNone then None
      else Some (concat (map (region_calls lib) imageOverlays)))"
proof -
  have "(filter (\<lambda>ov. img_action ov \<noteq> ActionNone) imageOverlays = []) \<longleftrightarrow>
        (\<forall>ov \<in> set imageOverlays. img_action ov = ActionNone)"
    by (simp add: filter_empty_conv)
  moreover have "(\<lambda>calls change. calls @ image_change_calls lib change) =
        (\<lambda>calls change. calls @ region_calls lib change)"
    by (simp add: image_change_calls_eq)
  ultimately show ?thesis
    by (simp add: commitImageEdits_def foldl_append_calls concat_region_calls_filter)
qed


theorem commitImageEdits_calls_witness:
  "commitImageEdits (Some signature_lib)
     [region_at 0 ActionNone None,
      region_at 10 ActionReplace (Some broken_png),
      region_at 200 ActionReplace (Some good_jpeg),
      region_at 300 ActionDelete None] =
   Some [DrawRectangle 10 20 100 50 white,
         DrawRectangle 200 20 100 50 white, DrawImage (JpgImage [255, 216, 255]) 200 20 100 50,
         DrawRectangle 300 20 100 50 white]"
  using commitImageEdits_calls[of signature_lib
     "[region_at 0 ActionNone None,
      region_at 10 ActionReplace (Some broken_png),
      region_at 200 ActionReplace (Some good_jpeg),
      region_at 300 ActionDelete None]"]
  by (simp add: region_calls_def region_at_def broken_png_def good_jpeg_def signature_lib_def
      cover_rectangle_def)

section \<open>The round trip of a line's markup\<close>

lemma escapeHtml_append: "escapeHtml (a @ b) = escapeHtml a @ escapeHtml b"
  by (simp add: escapeHtml_def)

lemma escapeHtml_Nil: "escapeHtml [] = []"
  by (simp add: escapeHtml_def)

lemma escapeHtml_no_lt: "CHR ''<'' \<notin> set (escapeHtml u)"
  by (induction u) (simp_all add: escapeHtml_def escape_char_def)

lemma escapeHtml_no_cr: "CHR 0x0D \<notin> set u \<Longrightarrow> CHR 0x0D \<notin> set (escapeHtml u)"
  by (induction u) (simp_all add: escapeHtml_def escape_char_def)

lemma normalize_newlines_id: "CHR 0x0D \<notin> set s \<Longrightarrow> normalize_newlines s = s"
  by (induction s rule: normalize_newlines.induct) auto

lemma decode_refs_escape_char: "decode_refs (escape_char c @ r) = c # decode_refs r"
  by (simp add: escape_char_def)

lemma decode_refs_escapeHtml: "decode_refs (escapeHtml u) = u"
  by (induction u) (simp_all add: escapeHtml_def decode_refs_escape_char del: decode_refs.simps(2))

lemma flush_text_escapeHtml:
  "CHR 0x00 \<notin> set u \<Longrightarrow> flush_text (escapeHtml u) = (if u = [] then [] else [Chars u])"
proof -
  assume "CHR 0x00 \<notin> set u"
  then have "filter (\<lambda>c. c \<noteq> CHR 0x00) u = u"
    by (induction u) auto
  then show ?thesis
    by (simp add: flush_text_def decode_refs_escapeHtml Let_def)
qed

lemma tokenize_text:
  "CHR ''<'' \<notin> set v \<Longrightarrow> tokenize False buf (v @ rest) = tokenize False (buf @ v) rest"
  by (induction v arbitrary: buf) auto

lemma tag_tokens:
  "tag_token ''b'' = StartTag ''b''" "tag_token ''i'' = StartTag ''i''"
  "tag_token ''/b'' = EndTag ''b''" "tag_token ''/i'' = EndTag ''i''"
  by code_simp+

lemma lower_tags: "toLowerCase ''b'' = ''b''" "toLowerCase ''i'' = ''i''"
  by code_simp+

lemma html_text_append: "html_text (a @ b) = html_text a @ html_text b"
  by (simp add: html_text_def)

lemma html_text_escapeHtml:
  "\<forall>c \<in> set u. round_trip_char c \<Longrightarrow> html_text u = escapeHtml u"
  by (induction u)
     (simp_all add: html_text_def escapeHtml_def html_text_char_def escape_char_def round_trip_char_def)

lemma insert_tokens_simps:
  "insert_tokens state [] = state"
  "insert_tokens state (t # ts) = insert_tokens (insert_token t state) ts"
  "insert_tokens state (ts @ us) = insert_tokens (insert_tokens state ts) us"
  by (simp_all add: insert_tokens_def)

lemma serialize_fragment_simps:
  "serialize_fragment [] = []"
  "serialize_fragment (xs @ ys) = serialize_fragment xs @ serialize_fragment ys"
  "serialize_fragment [TextNode t] = html_text t"
  by (simp_all add: serialize_fragment_def)

lemma textContent_simps:
  "textContent [] = []"
  "textContent (xs @ ys) = textContent xs @ textContent ys"
  "textContent [TextNode t] = t"
  "textContent [ElementNode tagName w s children] = textContent children"
  by (simp_all add: textContent_def)

lemma serialize_element:
  "tagName = ''b'' \<or> tagName = ''i'' \<Longrightarrow>
   serialize_fragment [ElementNode tagName [] [] children] =
     ''<'' @ tagName @ ''>'' @ serialize_fragment children @ ''</'' @ tagName @ ''>''"
  by (auto simp: serialize_fragment_def lower_tags style_attribute_def)

lemma append_chars_props:
  "serialize_fragment (append_chars cur t) = serialize_fragment cur @ html_text t"
  "textContent (append_chars cur t) = textContent cur @ t"
proof -
  show "serialize_fragment (append_chars cur t) = serialize_fragment cur @ html_text t"
  proof (cases cur rule: rev_cases)
    case Nil
    then show ?thesis by (simp add: append_chars_def serialize_fragment_def)
  next
    case (snoc ys y)
    then show ?thesis
      by (cases y) (simp_all add: append_chars_def serialize_fragment_def html_text_append)
  qed
  show "textContent (append_chars cur t) = textContent cur @ t"
  proof (cases cur rule: rev_cases)
    case Nil
    then show ?thesis by (simp add: append_chars_def textContent_def)
  next
    case (snoc ys y)
    then show ?thesis
      by (cases y) (simp_all add: append_chars_def textContent_def)
  qed
qed

lemma flush_text_Nil: "flush_text [] = []"
  by (simp add: flush_text_def)

lemma insert_flush:
  assumes "\<forall>c \<in> set u. round_trip_char c"
  shows "\<exists>cur'. insert_tokens (st, cur) (flush_text (escapeHtml u)) = (st, cur') \<and>
           serialize_fragment cur' = serialize_fragment cur @ escapeHtml u \<and>
           textContent cur' = textContent cur @ u"
proof -
  from assms have nul: "CHR 0x00 \<notin> set u"
    by (auto simp: round_trip_char_def)
  show ?thesis
  proof (cases "u = []")
    case True
    then show ?thesis
      by (simp add: flush_text_Nil insert_tokens_simps escapeHtml_Nil)
  next
    case False
    then show ?thesis
      using nul html_text_escapeHtml[OF assms]
      by (simp add: flush_text_escapeHtml insert_tokens_simps append_chars_props)
  qed
qed

lemma insert_element:
  assumes "tagName = ''b'' \<or> tagName = ''i''"
    and "insert_tokens ((tagName, cur) # st, []) ts = ((tagName, cur) # st, inner)"
  shows "insert_tokens (st, cur) (StartTag tagName # ts @ [EndTag tagName]) =
           (st, cur @ [ElementNode tagName [] [] inner])"
  using assms by (auto simp: insert_tokens_simps)

lemma item_markup_cases:
  obtains (plain) "buildInitialHtmlFromItems [it] = escapeHtml (it_str it)"
  | (bold) "buildInitialHtmlFromItems [it] = ''<b>'' @ escapeHtml (it_str it) @ ''</b>''"
  | (italic) "buildInitialHtmlFromItems [it] = ''<i>'' @ escapeHtml (it_str it) @ ''</i>''"
  | (both) "buildInitialHtmlFromItems [it] = ''<b><i>'' @ escapeHtml (it_str it) @ ''</i></b>''"
proof -
  let ?style = "detectFontStyleWithMeta (it_fontName it) (it_styleInfo it)"
  show thesis
  proof (cases "fst ?style")
    case True
    show thesis
    proof (cases "snd ?style")
      case True
      with \<open>fst ?style\<close> show thesis
        by (intro both) (simp add: buildInitialHtmlFromItems_def Let_def)
    next
      case False
      with \<open>fst ?style\<close> show thesis
        by (intro bold) (simp add: buildInitialHtmlFromItems_def Let_def)
    qed
  next
    case False
    show thesis
    proof (cases "snd ?style")
      case True
      with \<open>\<not> fst ?style\<close> show thesis
        by (intro italic) (simp add: buildInitialHtmlFromItems_def Let_def)
    next
      case False
      with \<open>\<not> fst ?style\<close> show thesis
        by (intro plain) (simp add: buildInitialHtmlFromItems_def Let_def)
    qed
  qed
qed

lemma buildInitialHtmlFromItems_Cons:
  "buildInitialHtmlFromItems (it # items) =
     buildInitialHtmlFromItems [it] @ buildInitialHtmlFromItems items"
  by (simp add: buildInitialHtmlFromItems_def)

lemma buildInitialHtmlFromItems_Nil: "buildInitialHtmlFromItems [] = []"
  by (simp add: buildInitialHtmlFromItems_def)

lemma tokenize_escaped:
  "tokenize False (escapeHtml u) (escapeHtml v @ rest) = tokenize False (escapeHtml (u @ v)) rest"
  by (simp add: tokenize_text escapeHtml_no_lt escapeHtml_append)

lemma tokenize_wrapped:
  assumes "tagName = ''b'' \<or> tagName = ''i''"
  shows "tokenize False buf (''<'' @ tagName @ ''>'' @ escapeHtml v @ ''</'' @ tagName @ ''>'' @ rest) =
           flush_text buf @ StartTag tagName # flush_text (escapeHtml v) @ EndTag tagName #
             tokenize False [] rest"
proof -
  have "tokenize False [] (escapeHtml v @ ''</'' @ tagName @ ''>'' @ rest) =
        tokenize False (escapeHtml v) (''</'' @ tagName @ ''>'' @ rest)"
    using tokenize_text[OF escapeHtml_no_lt, of "[]" v] by simp
  then show ?thesis
    using assms by (auto simp: tag_tokens)
qed

lemma tokenize_wrapped2:
  "tokenize False buf (''<b><i>'' @ escapeHtml v @ ''</i></b>'' @ rest) =
     flush_text buf @ StartTag ''b'' # StartTag ''i'' # flush_text (escapeHtml v) @
       EndTag ''i'' # EndTag ''b'' # tokenize False [] rest"
proof -
  have "tokenize False [] (escapeHtml v @ ''</i></b>'' @ rest) =
        tokenize False (escapeHtml v) (''</i></b>'' @ rest)"
    using tokenize_text[OF escapeHtml_no_lt, of "[]" v] by simp
  then show ?thesis
    by (simp add: tag_tokens flush_text_Nil)
qed

lemma parse_items:
  assumes "\<forall>it \<in> set items. \<forall>c \<in> set (it_str it). round_trip_char c"
    and "\<forall>c \<in> set u. round_trip_char c"
  shows "\<exists>cur'. insert_tokens ([], cur)
                  (tokenize False (escapeHtml u) (buildInitialHtmlFromItems items)) = ([], cur') \<and>
           serialize_fragment cur' =
             serialize_fragment cur @ escapeHtml u @ buildInitialHtmlFromItems items \<and>
           textContent cur' = textContent cur @ u @ concat (map it_str items)"
  using assms
proof (induction items arbitrary: u cur)
  case Nil
  from insert_flush[OF Nil(2), of "[]" cur] show ?case
    by (simp add: buildInitialHtmlFromItems_Nil)
next
  case (Cons it items)
  have str: "\<forall>c \<in> set (it_str it). round_trip_char c"
    and rest: "\<forall>it \<in> set items. \<forall>c \<in> set (it_str it). round_trip_char c"
    using Cons.prems(1) by simp_all
  let ?R = "buildInitialHtmlFromItems items"
  have element: "\<exists>cur'. insert_tokens ([], cur)
                  (tokenize False (escapeHtml u)
                     (''<'' @ tagName @ ''>'' @ escapeHtml (it_str it) @ ''</'' @ tagName @ ''>'' @ ?R)) =
                  ([], cur') \<and>
           serialize_fragment cur' =
             serialize_fragment cur @ escapeHtml u @
               (''<'' @ tagName @ ''>'' @ escapeHtml (it_str it) @ ''</'' @ tagName @ ''>'') @ ?R \<and>
           textContent cur' = textContent cur @ u @ it_str it @ concat (map it_str items)"
    if tg: "tagName = ''b'' \<or> tagName = ''i''" for tagName
  proof -
    from insert_flush[OF Cons.prems(2), of "[]" cur] obtain c1 where
      c1: "insert_tokens ([], cur) (flush_text (escapeHtml u)) = ([], c1)"
        "serialize_fragment c1 = serialize_fragment cur @ escapeHtml u"
        "textContent c1 = textContent cur @ u" by blast
    from insert_flush[OF str, of "[(tagName, c1)]" "[]"] obtain c2 where
      c2: "insert_tokens ([(tagName, c1)], []) (flush_text (escapeHtml (it_str it))) = ([(tagName, c1)], c2)"
        "serialize_fragment c2 = escapeHtml (it_str it)"
        "textContent c2 = it_str it" by (auto simp: serialize_fragment_simps textContent_simps)
    let ?el = "ElementNode tagName [] [] c2"
    have e: "insert_tokens ([], c1)
               (StartTag tagName # flush_text (escapeHtml (it_str it)) @ [EndTag tagName]) =
             ([], c1 @ [?el])"
      using insert_element[OF tg c2(1)] .
    from Cons.IH[OF rest, of "[]" "c1 @ [?el]"] obtain c3 where
      c3: "insert_tokens ([], c1 @ [?el]) (tokenize False [] ?R) = ([], c3)"
        "serialize_fragment c3 = serialize_fragment (c1 @ [?el]) @ ?R"
        "textContent c3 = textContent (c1 @ [?el]) @ concat (map it_str items)"
      by (auto simp: escapeHtml_Nil)
    have run: "insert_tokens ([], cur)
                  (tokenize False (escapeHtml u)
                     (''<'' @ tagName @ ''>'' @ escapeHtml (it_str it) @ ''</'' @ tagName @ ''>'' @ ?R)) =
               ([], c3)"
      unfolding tokenize_wrapped[OF tg] insert_tokens_simps(3) c1(1)
      using e c3(1) by (simp add: insert_tokens_simps)
    have ser: "serialize_fragment c3 =
             serialize_fragment cur @ escapeHtml u @
               (''<'' @ tagName @ ''>'' @ escapeHtml (it_str it) @ ''</'' @ tagName @ ''>'') @ ?R"
      unfolding c3(2) serialize_fragment_simps(2) serialize_element[OF tg] c1(2) c2(2) by simp
    have tcs: "textContent c3 = textContent cur @ u @ it_str it @ concat (map it_str items)"
      unfolding c3(3) by (simp add: textContent_simps c1(3) c2(3))
    from run ser tcs show ?thesis by blast
  qed
  show ?case
  proof (cases rule: item_markup_cases[of it])
    case plain
    have u': "\<forall>c \<in> set (u @ it_str it). round_trip_char c"
      using Cons.prems(2) str by auto
    from Cons.IH[OF rest u', of cur] show ?thesis
      unfolding buildInitialHtmlFromItems_Cons[of it items] plain
      by (simp add: tokenize_escaped escapeHtml_append)
  next
    case bold
    from element[of "''b''"] show ?thesis
      unfolding buildInitialHtmlFromItems_Cons[of it items] bold by simp
  next
    case italic
    from element[of "''i''"] show ?thesis
      unfolding buildInitialHtmlFromItems_Cons[of it items] italic by simp
  next
    case both
    from insert_flush[OF Cons.prems(2), of "[]" cur] obtain c1 where
      c1: "insert_tokens ([], cur) (flush_text (escapeHtml u)) = ([], c1)"
        "serialize_fragment c1 = serialize_fragment cur @ escapeHtml u"
        "textContent c1 = textContent cur @ u" by blast
    from insert_flush[OF str, of "[(''i'', []), (''b'', c1)]" "[]"] obtain c2 where
      c2: "insert_tokens ([(''i'', []), (''b'', c1)], []) (flush_text (escapeHtml (it_str it))) =
             ([(''i'', []), (''b'', c1)], c2)"
        "serialize_fragment c2 = escapeHtml (it_str it)"
        "textContent c2 = it_str it" by (auto simp: serialize_fragment_simps textContent_simps)
    let ?el = "ElementNode ''b'' [] [] [ElementNode ''i'' [] [] c2]"
    from Cons.IH[OF rest, of "[]" "c1 @ [?el]"] obtain c3 where
      c3: "insert_tokens ([], c1 @ [?el]) (tokenize False [] ?R) = ([], c3)"
        "serialize_fragment c3 = serialize_fragment (c1 @ [?el]) @ ?R"
        "textContent c3 = textContent (c1 @ [?el]) @ concat (map it_str items)"
      by (auto simp: escapeHtml_Nil)
    have run: "insert_tokens ([], cur)
                  (tokenize False (escapeHtml u)
                     (''<b><i>'' @ escapeHtml (it_str it) @ ''</i></b>'' @ ?R)) = ([], c3)"
      unfolding tokenize_wrapped2 insert_tokens_simps(3) c1(1)
      using c2(1) c3(1) by (simp add: insert_tokens_simps)
    have ser: "serialize_fragment c3 =
             serialize_fragment cur @ escapeHtml u @
               (''<b><i>'' @ escapeHtml (it_str it) @ ''</i></b>'') @ ?R"
      unfolding c3(2) serialize_fragment_simps(2) c1(2)
      using serialize_element[of "''b''" "[ElementNode ''i'' [] [] c2]"]
        serialize_element[of "''i''" c2] c2(2) by simp
    have tcs: "textContent c3 = textContent cur @ u @ it_str it @ concat (map it_str items)"
      unfolding c3(3) by (simp add: textContent_simps c1(3) c2(3))
    from run ser tcs show ?thesis
      unfolding buildInitialHtmlFromItems_Cons[of it items] both by auto
  qed
qed

section \<open>Proofs: the block editing session\<close>

lemma markDirty_fields [simp]:
  "ds_blockIdx (markDirty P d) = ds_blockIdx d" "ds_lineIdx (markDirty P d) = ds_lineIdx d"
  by (simp_all add: markDirty_def)

lemma make_div_blockIdx [simp]: "ds_blockIdx (make_div P canvas i li lin saved) = i"
  by (simp add: make_div_def Let_def)

lemma make_divs_blockIdx: "d \<in> set (make_divs P canvas i para saved) \<Longrightarrow> ds_blockIdx d = i"
  by (auto simp: make_divs_def)

lemma deactivateBlock_fields:
  "active (deactivateBlock P s) = active s"
  "paragraphData (deactivateBlock P s) = paragraphData s"
  "pdfCanvas (deactivateBlock P s) = pdfCanvas s"
  "currentViewport (deactivateBlock P s) = currentViewport s"
  "customFont (deactivateBlock P s) = customFont s"
  by (simp_all add: deactivateBlock_def Let_def)

lemma activate_fresh_fields:
  "active (activate_fresh P s i) = active s"
  "paragraphData (activate_fresh P s i) = paragraphData s"
  "editedBlocks (activate_fresh P s i) = editedBlocks s"
  "activeBlockIdx (activate_fresh P s i) = i"
  "(editContainer (activate_fresh P s i) = None) = (editContainer s = None)"
  by (simp_all add: activate_fresh_def Let_def split: option.splits)

lemma activateBlock_fields:
  "active (activateBlock P s i) = active s"
  "activeBlockIdx (activateBlock P s i) = i"
  "(editContainer (activateBlock P s i) = None) = (editContainer s = None)"
  by (auto simp: activateBlock_def activate_fresh_fields deactivateBlock_fields deactivateBlock_def Let_def)

lemma blockLines_single_active:
  "single_active s \<Longrightarrow> editContainer s = Some divs \<Longrightarrow> blockLines s = divs"
  by (auto simp: single_active_def blockLines_def filter_id_conv)

lemma deactivateBlock_active:
  assumes "single_active s" "editContainer s \<noteq> None" "0 \<le> activeBlockIdx s"
  shows "editContainer (deactivateBlock P s) = Some []"
    and "activeBlockIdx (deactivateBlock P s) = - 1"
    and "(\<exists>d \<in> set (blockLines s). sv_dirty (save_line P d)) \<Longrightarrow>
           map_of (editedBlocks (deactivateBlock P s)) (activeBlockIdx s) =
             Some (map (save_line P) (blockLines s))"
    and "\<not> (\<exists>d \<in> set (blockLines s). sv_dirty (save_line P d)) \<Longrightarrow>
           editedBlocks (deactivateBlock P s) = editedBlocks s"
proof -
  from assms(2) obtain divs where divs: "editContainer s = Some divs" by auto
  have "filter (\<lambda>d. ds_blockIdx d \<noteq> activeBlockIdx s) divs = []"
    using assms(1) divs by (auto simp: single_active_def filter_empty_conv)
  then show "editContainer (deactivateBlock P s) = Some []"
    using assms(3) divs by (simp add: deactivateBlock_def Let_def)
  show "activeBlockIdx (deactivateBlock P s) = - 1"
    using assms(3) divs by (simp add: deactivateBlock_def Let_def)
  show "map_of (editedBlocks (deactivateBlock P s)) (activeBlockIdx s) =
             Some (map (save_line P) (blockLines s))"
    if "\<exists>d \<in> set (blockLines s). sv_dirty (save_line P d)"
    using that assms(3) divs by (simp add: deactivateBlock_def Let_def update_conv')
  show "editedBlocks (deactivateBlock P s) = editedBlocks s"
    if "\<not> (\<exists>d \<in> set (blockLines s). sv_dirty (save_line P d))"
    using that assms(3) divs by (simp add: deactivateBlock_def Let_def)
qed

lemma activate_fresh_empty:
  assumes "editContainer s = Some []"
  shows "editContainer (activate_fresh P s b) =
           Some (case js_index (paragraphData s) b of
                   None \<Rightarrow> []
                 | Some para \<Rightarrow> make_divs P (pdfCanvas s) b para (map_of (editedBlocks s) b))"
  using assms by (simp add: activate_fresh_def Let_def split: option.splits)

lemma switch_blocks:
  assumes "single_active s" "editContainer s \<noteq> None" "0 \<le> activeBlockIdx s" "b \<noteq> activeBlockIdx s"
  shows "activateBlock P s b = activate_fresh P (deactivateBlock P s) b \<and>
         editContainer (deactivateBlock P s) = Some [] \<and>
         activeBlockIdx (deactivateBlock P s) = - 1 \<and>
         ((\<exists>d \<in> set (blockLines s). sv_dirty (save_line P d)) \<longrightarrow>
            map_of (editedBlocks (deactivateBlock P s)) (activeBlockIdx s) =
              Some (map (save_line P) (blockLines s))) \<and>
         activeBlockIdx (activateBlock P s b) = b \<and>
         editContainer (activateBlock P s b) =
           Some (case js_index (paragraphData s) b of
                   None \<Rightarrow> []
                 | Some para \<Rightarrow>
                     make_divs P (pdfCanvas s) b para (map_of (editedBlocks (deactivateBlock P s)) b)) \<and>
         (\<forall>d \<in> set (the (editContainer (activateBlock P s b))). ds_blockIdx d = b)"
proof -
  have eq: "activateBlock P s b = activate_fresh P (deactivateBlock P s) b"
    using assms(3,4) by (simp add: activateBlock_def)
  note d = deactivateBlock_active[OF assms(1-3), of P]
  have cont: "editContainer (activateBlock P s b) =
           Some (case js_index (paragraphData s) b of
                   None \<Rightarrow> []
                 | Some para \<Rightarrow>
                     make_divs P (pdfCanvas s) b para (map_of (editedBlocks (deactivateBlock P s)) b))"
    unfolding eq using activate_fresh_empty[OF d(1), of P b]
    by (simp add: deactivateBlock_fields cong: option.case_cong)
  have only: "\<forall>d \<in> set (the (editContainer (activateBlock P s b))). ds_blockIdx d = b"
    unfolding cont by (auto split: option.splits dest: make_divs_blockIdx)
  have idx: "activeBlockIdx (activateBlock P s b) = b"
    by (simp add: activateBlock_fields)
  show ?thesis
    by (intro conjI impI) (fact eq, fact d(1), fact d(2), erule d(3), fact idx, fact cont, fact only)
qed


lemma single_active_activateBlock:
  assumes "single_active s"
  shows "single_active (activateBlock P s b)"
proof (cases "b = activeBlockIdx s")
  case True
  then show ?thesis using assms by (simp add: activateBlock_def)
next
  case ne: False
  show ?thesis
  proof (cases "editContainer s")
    case None
    then have "editContainer (activateBlock P s b) = None"
      by (simp add: activateBlock_fields)
    then show ?thesis by (simp add: single_active_def)
  next
    case (Some divs)
    have cont: "\<exists>s0::session. editContainer (activateBlock P s b) =
           Some (case js_index (paragraphData s) b of
                   None \<Rightarrow> []
                 | Some para \<Rightarrow> make_divs P (pdfCanvas s) b para (map_of (editedBlocks s0) b))"
    proof (cases "0 \<le> activeBlockIdx s")
      case True
      have "editContainer s \<noteq> None" using Some by simp
      from switch_blocks[OF assms this True ne, of P]
      have "editContainer (activateBlock P s b) =
           Some (case js_index (paragraphData s) b of
                   None \<Rightarrow> []
                 | Some para \<Rightarrow>
                     make_divs P (pdfCanvas s) b para (map_of (editedBlocks (deactivateBlock P s)) b))"
        by blast
      then show ?thesis by (rule exI[where x = "deactivateBlock P s"])
    next
      case False
      then have "divs = []" using assms Some by (cases divs) (auto simp: single_active_def)
      then have "editContainer s = Some []" using Some by simp
      from activate_fresh_empty[OF this, of P b] False ne
      have "editContainer (activateBlock P s b) =
           Some (case js_index (paragraphData s) b of
                   None \<Rightarrow> []
                 | Some para \<Rightarrow> make_divs P (pdfCanvas s) b para (map_of (editedBlocks s) b))"
        by (simp add: activateBlock_def)
      then show ?thesis by (rule exI[where x = s])
    qed
    have idx: "activeBlockIdx (activateBlock P s b) = b" by (simp add: activateBlock_fields)
    from cont obtain s0 :: session where c: "editContainer (activateBlock P s b) =
           Some (case js_index (paragraphData s) b of
                   None \<Rightarrow> []
                 | Some para \<Rightarrow> make_divs P (pdfCanvas s) b para (map_of (editedBlocks s0) b))"
      by blast
    show ?thesis
      unfolding single_active_def c idx
      by (auto simp: js_index_def split: option.splits if_splits dest: make_divs_blockIdx)
  qed
qed

lemma pushUndo_fields:
  "active (pushUndo P d s) = active s" "activeBlockIdx (pushUndo P d s) = activeBlockIdx s"
  "editContainer (pushUndo P d s) = editContainer s" "editedBlocks (pushUndo P d s) = editedBlocks s"
  by (simp_all add: pushUndo_def Let_def)

lemma type_text_fields:
  "active (type_text P li t s) = active s"
  "activeBlockIdx (type_text P li t s) = activeBlockIdx s"
  "(editContainer (type_text P li t s) = None) = (editContainer s = None)"
  by (simp_all add: type_text_def Let_def split: option.splits list.splits)

lemma single_active_type_text:
  "single_active s \<Longrightarrow> single_active (type_text P li t s)"
  by (auto simp: type_text_def single_active_def Let_def split: option.splits list.splits)

lemma single_active_demo: "single_active demo_session"
  by (simp add: single_active_def demo_session_def)

lemma edited_session_facts:
  "single_active edited_session" "editContainer edited_session \<noteq> None"
  "activeBlockIdx edited_session = 0" "active edited_session"
  by (simp_all add: edited_session_def single_active_type_text single_active_activateBlock
      single_active_demo type_text_fields activateBlock_fields)
     (simp_all add: demo_session_def)

text \<open>Evaluations of the example sessions.\<close>

lemma edited_session_store:
  "map (\<lambda>e. (fst e, map sv_dirty (snd e))) (editedBlocks (deactivateBlock plain_dom edited_session)) =
     [(0, [True])]"
  by code_simp

lemma edited_session_undo: "length (undoStack edited_session) = 1"
  by code_simp

lemma edited_session_commit:
  "fst (commitTextEdits plain_dom (Some signature_lib) edited_session) =
     Some [DrawRectangle 71 (14937 / 25) 154 (392 / 25) white,
           DrawText ''Goodbye World'' 72 600 12 (StandardFont ''Helvetica'') black]"
  by code_simp

text \<open>
  \<^bold>\<open>C1.\<close> When \<^verbatim>\<open>activateBlock(B)\<close> is called while block \<open>A\<close> is active, with \<open>A\<close> the only
  block that has overlays, the result is the activation of \<open>B\<close> run on the state that
  \<^verbatim>\<open>deactivateBlock\<close> leaves: in that state no overlay is left, no block is active and, when
  a line of \<open>A\<close> is dirty, the store holds the saved lines of \<open>A\<close> under \<open>A\<close>'s index. Only then
  are the overlays of \<open>B\<close> created, and afterwards \<open>B\<close> is the active block and every overlay
  in the container belongs to \<open>B\<close>.
\<close>

theorem activateBlock_switch:
  assumes "single_active s" "editContainer s \<noteq> None" "0 \<le> activeBlockIdx s" "b \<noteq> activeBlockIdx s"
  shows "activateBlock P s b = activate_fresh P (deactivateBlock P s) b \<and>
         editContainer (deactivateBlock P s) = Some [] \<and>
         activeBlockIdx (deactivateBlock P s) = - 1 \<and>
         ((\<exists>d \<in> set (blockLines s). sv_dirty (save_line P d)) \<longrightarrow>
            map_of (editedBlocks (deactivateBlock P s)) (activeBlockIdx s) =
              Some (map (save_line P) (blockLines s))) \<and>
         activeBlockIdx (activateBlock P s b) = b \<and>
         editContainer (activateBlock P s b) =
           Some (case js_index (paragraphData s) b of
                   None \<Rightarrow> []
                 | Some para \<Rightarrow>
                     make_divs P (pdfCanvas s) b para (map_of (editedBlocks (deactivateBlock P s)) b)) \<and>
         (\<forall>d \<in> set (the (editContainer (activateBlock P s b))). ds_blockIdx d = b)"
proof -
  have eq: "activateBlock P s b = activate_fresh P (deactivateBlock P s) b"
    using assms(3,4) by (simp add: activateBlock_def)
  note d = deactivateBlock_active[OF assms(1-3), of P]
  have cont: "editContainer (activateBlock P s b) =
           Some (case js_index (paragraphData s) b of
                   None \<Rightarrow> []
                 | Some para \<Rightarrow>
                     make_divs P (pdfCanvas s) b para (map_of (editedBlocks (deactivateBlock P s)) b))"
    unfolding eq using activate_fresh_empty[OF d(1), of P b]
    by (simp add: deactivateBlock_fields cong: option.case_cong)
  have only: "\<forall>d \<in> set (the (editContainer (activateBlock P s b))). ds_blockIdx d = b"
    unfolding cont by (auto split: option.splits dest: make_divs_blockIdx)
  have idx: "activeBlockIdx (activateBlock P s b) = b"
    by (simp add: activateBlock_fields)
  show ?thesis
    by (intro conjI impI) (fact eq, fact d(1), fact d(2), erule d(3), fact idx, fact cont, fact only)
qed


theorem activateBlock_switch_witness:
  "single_active edited_session \<and> editContainer edited_session \<noteq> None \<and>
   (0::int) \<le> activeBlockIdx edited_session \<and> (1::int) \<noteq> activeBlockIdx edited_session \<and>
   map (\<lambda>e. (fst e, map sv_dirty (snd e))) (editedBlocks (deactivateBlock plain_dom edited_session)) =
     [(0, [True])] \<and>
   editContainer (deactivateBlock plain_dom edited_session) = Some [] \<and>
   activeBlockIdx (deactivateBlock plain_dom edited_session) = - 1 \<and>
   activeBlockIdx (activateBlock plain_dom edited_session 1) = 1 \<and>
   activateBlock plain_dom edited_session 1 =
     activate_fresh plain_dom (deactivateBlock plain_dom edited_session) 1"
proof -
  have h: "single_active edited_session" "editContainer edited_session \<noteq> None"
    "0 \<le> activeBlockIdx edited_session" "1 \<noteq> activeBlockIdx edited_session"
    by (simp_all add: edited_session_facts)
  note t = activateBlock_switch[OF h, of plain_dom]
  show ?thesis
    by (intro conjI) (use t h edited_session_store in blast)+
qed

lemma make_div_fresh_clean:
  assumes "dom_stable P lin"
  shows "\<not> dirty_class (make_div P canvas i li lin None)"
    and "\<not> sv_dirty (save_line P (make_div P canvas i li lin None))"
  using assms
  by (simp_all add: make_div_def Let_def save_line_def hasTextChange_def hasFormatChange_def
      hasInlineFormatChange_def dom_stable_def)

text \<open>
  A line built from items, or a line of the OCR fallback, whose text has only characters
  that the round trip carries through, comes back from the browser as it went in: the
  overlay's text content is the line's text and its serialised content is the markup the
  overlay was built from.
\<close>

lemma text_nodes_round_trip:
  assumes "\<forall>c \<in> set t. round_trip_char c"
  shows "textContent (text_nodes t) = t" and "serialize_fragment (text_nodes t) = escapeHtml t"
  using html_text_escapeHtml[OF assms]
  by (simp_all add: text_nodes_def textContent_def serialize_fragment_def escapeHtml_Nil)

lemma buildInitialHtmlFromItems_no_cr:
  "\<forall>it \<in> set items. CHR 0x0D \<notin> set (it_str it) \<Longrightarrow>
   CHR 0x0D \<notin> set (buildInitialHtmlFromItems items)"
proof (induction items)
  case Nil
  show ?case by (simp add: buildInitialHtmlFromItems_Nil)
next
  case (Cons it items)
  then have cr: "CHR 0x0D \<notin> set (escapeHtml (it_str it))"
    and rest: "CHR 0x0D \<notin> set (buildInitialHtmlFromItems items)"
    by (simp_all add: escapeHtml_no_cr)
  show ?case
    by (cases rule: item_markup_cases[of it])
       (use cr rest in \<open>simp_all add: buildInitialHtmlFromItems_Cons[of it items]\<close>)
qed

lemma parse_fragment_items:
  assumes "\<forall>it \<in> set items. \<forall>c \<in> set (it_str it). round_trip_char c"
  shows "textContent (parse_fragment (buildInitialHtmlFromItems items)) = concat (map it_str items)"
    and "serialize_fragment (parse_fragment (buildInitialHtmlFromItems items)) =
           buildInitialHtmlFromItems items"
proof -
  from assms have "\<forall>it \<in> set items. CHR 0x0D \<notin> set (it_str it)"
    by (auto simp: round_trip_char_def)
  then have nl: "normalize_newlines (buildInitialHtmlFromItems items) = buildInitialHtmlFromItems items"
    by (intro normalize_newlines_id buildInitialHtmlFromItems_no_cr)
  from parse_items[OF assms, of "[]" "[]"] obtain nodes where
    nodes: "insert_tokens ([], []) (tokenize False [] (buildInitialHtmlFromItems items)) = ([], nodes)"
      "serialize_fragment nodes = buildInitialHtmlFromItems items"
      "textContent nodes = concat (map it_str items)"
    by (auto simp: escapeHtml_Nil serialize_fragment_simps textContent_simps)
  have p: "parse_fragment (buildInitialHtmlFromItems items) = nodes"
    by (simp add: parse_fragment_def nl nodes(1))
  show "textContent (parse_fragment (buildInitialHtmlFromItems items)) = concat (map it_str items)"
    unfolding p by (fact nodes(3))
  show "serialize_fragment (parse_fragment (buildInitialHtmlFromItems items)) =
           buildInitialHtmlFromItems items"
    unfolding p by (fact nodes(2))
qed

lemma line_source_stable:
  assumes "line_source lin items" and "\<forall>c \<in> set (l_text lin). round_trip_char c"
  shows "dom_stable html_dom lin"
proof (cases "l_initialHtml lin = []")
  case True
  then show ?thesis
    using text_nodes_round_trip[OF assms(2)]
    by (simp add: dom_stable_def initial_content_def html_dom_def)
next
  case False
  with assms(1) have src: "l_text lin = concat (map it_str items)"
    "l_initialHtml lin = buildInitialHtmlFromItems items"
    by (auto simp: line_source_def split: if_splits)
  from assms(2) have "\<forall>it \<in> set items. \<forall>c \<in> set (it_str it). round_trip_char c"
    unfolding src(1) by auto
  from parse_fragment_items[OF this] False show ?thesis
    by (simp add: dom_stable_def initial_content_def html_dom_def src)
qed

lemma map_replicate_False:
  "\<forall>x \<in> set xs. \<not> f x \<Longrightarrow> map f xs = replicate (length xs) False"
  by (induction xs) simp_all

lemma list_all2_source:
  "list_all2 line_source para sources \<Longrightarrow> lin \<in> set para \<Longrightarrow> \<exists>items. line_source lin items"
  by (induction rule: list_all2_induct) auto


text \<open>
  The original markup of a line is written with \<^verbatim>\<open>escapeHtml\<close>, which turns a double quote
  into \<^verbatim>\<open>&quot;\<close>, while the serialisation of a text node leaves a double quote as it is. The
  comparison of the two in \<^verbatim>\<open>deactivateBlock\<close> therefore fails for a line that contains a
  double quote: block 1, never edited, is saved dirty by activation and deactivation alone.
\<close>

lemma quoted_line_dirty:
  "l_text (item_line quoted_items 200) = ''say \"hi\"'' \<and>
   map_of (editedBlocks markup_session) 1 = None \<and>
   map (\<lambda>e. (fst e, map sv_dirty (snd e)))
     (editedBlocks (deactivateBlock html_dom (activateBlock html_dom markup_session 1))) =
     [(1, [True])]"
  by code_simp

text \<open>
  A line of a block without a record is saved dirty exactly when the browser does not
  reproduce it. Each of the four characters left out of \<^const>\<open>round_trip_char\<close> has this
  effect on a line that contains it: the double quote and the no-break space because
  \<^verbatim>\<open>escapeHtml\<close> and the serialiser write them differently, the carriage return and NUL
  because the parser changes the text.
\<close>

lemma fresh_line_dirty_iff:
  "sv_dirty (save_line P (make_div P canvas i li lin None)) \<longleftrightarrow> \<not> dom_stable P lin"
  by (auto simp: make_div_def Let_def save_line_def hasTextChange_def hasFormatChange_def
      hasInlineFormatChange_def dom_stable_def)

lemma other_chars_not_reproduced:
  "list_all
     (\<lambda>c. \<not> dom_stable html_dom
            (item_line [\<lparr>it_str = [CHR ''a'', c, CHR ''b''], it_fontName = ''Helvetica'',
                         it_styleInfo = None\<rparr>] 100))
     [CHR 0x22, char_of (160 :: nat), CHR 0x0D, CHR 0x00]"
  by code_simp


section \<open>Proofs: commit of text edits and session state\<close>

lemma map_upt_Suc_shift: "map f [0..<Suc n] = f 0 # map (\<lambda>i. f (Suc i)) [0..<n]"
  by (simp only: upt_conv_Cons[of 0 "Suc n"] map_Suc_upt[symmetric] list.map map_map o_def)

lemma draw_runs_closed_form:
  "draw_runs lib custom name y fs col x0 runs =
     map (\<lambda>i. DrawText (run_text (filter (\<lambda>r. run_text r \<noteq> []) runs ! i))
                 (x0 + sum_list (map (run_width lib custom name fs)
                                   (take i (filter (\<lambda>r. run_text r \<noteq> []) runs))))
                 y fs
                 (getFont lib custom name (run_bold (filter (\<lambda>r. run_text r \<noteq> []) runs ! i))
                                          (run_italic (filter (\<lambda>r. run_text r \<noteq> []) runs ! i)))
                 col)
         [0..<length (filter (\<lambda>r. run_text r \<noteq> []) runs)]"
proof (induction runs arbitrary: x0)
  case Nil
  then show ?case by simp
next
  case (Cons r rs)
  show ?case
  proof (cases "run_text r = []")
    case True
    then show ?thesis using Cons.IH[of x0] by simp
  next
    case False
    then show ?thesis
      using Cons.IH[of "x0 + run_width lib custom name fs r"]
      by (simp add: map_upt_Suc_shift run_width_def add.assoc del: upt_Suc)
  qed
qed

lemma commit_calls_concat:
  "foldl (\<lambda>calls c. calls @ f c) acc xs = acc @ concat (map f xs)"
  by (induction xs arbitrary: acc) simp_all



lemma commit_state:
  "snd (commitTextEdits P PDFLib s) =
     (if editContainer s = None then s
      else if activeBlockIdx s \<ge> 0 then deactivateBlock P s else s)"
  by (cases PDFLib) (simp_all add: commitTextEdits_def Let_def)

lemma deactivateBlock_undo:
  "undoStack (deactivateBlock P s) = undoStack s" "redoStack (deactivateBlock P s) = redoStack s"
  by (simp_all add: deactivateBlock_def Let_def)

lemma activate_fresh_undo:
  "undoStack (activate_fresh P s i) = undoStack s" "redoStack (activate_fresh P s i) = redoStack s"
  by (simp_all add: activate_fresh_def Let_def split: option.splits)

lemma activateBlock_undo:
  "undoStack (activateBlock P s i) = undoStack s" "redoStack (activateBlock P s i) = redoStack s"
  by (simp_all add: activateBlock_def activate_fresh_undo deactivateBlock_undo)

lemma exitTextEditMode_clears:
  "active s \<Longrightarrow> undoStack (exitTextEditMode P s) = [] \<and> redoStack (exitTextEditMode P s) = [] \<and>
     editedBlocks (exitTextEditMode P s) = []"
  by (simp add: exitTextEditMode_def Let_def)




text \<open>
  \<^bold>\<open>C9\<close> (as stated, refuted). With block 0 active and one undo snapshot taken, activating
  block 1 leaves the snapshot on the undo stack; and exiting edit mode empties the store,
  although the deactivation it performs had just recorded block 0.
\<close>

theorem undo_scope_counterexample:
  "activeBlockIdx edited_session = 0 \<and>
   length (undoStack edited_session) = 1 \<and>
   activeBlockIdx (activateBlock plain_dom edited_session 1) = 1 \<and>
   length (undoStack (activateBlock plain_dom edited_session 1)) = 1 \<and>
   map (\<lambda>e. (fst e, map sv_dirty (snd e))) (editedBlocks (deactivateBlock plain_dom edited_session)) =
     [(0, [True])] \<and>
   editedBlocks (exitTextEditMode plain_dom edited_session) = []"
  using edited_session_facts edited_session_undo edited_session_store
    exitTextEditMode_clears[of edited_session plain_dom]
  by (simp add: activateBlock_fields activateBlock_undo)

text \<open>
  \<^bold>\<open>C9\<close> (amended). Deactivating a block, and therefore switching blocks, changes neither
  the undo stack nor the redo stack. Exiting edit mode while the editor is active empties
  both stacks, and with them the dirty-block store.
\<close>

theorem undo_scope:
  "undoStack (deactivateBlock P s) = undoStack s \<and>
   redoStack (deactivateBlock P s) = redoStack s \<and>
   undoStack (activateBlock P s i) = undoStack s \<and>
   redoStack (activateBlock P s i) = redoStack s \<and>
   (active s \<longrightarrow>
      undoStack (exitTextEditMode P s) = [] \<and> redoStack (exitTextEditMode P s) = [] \<and>
      editedBlocks (exitTextEditMode P s) = [])"
  using exitTextEditMode_clears[of s P]
  by (simp add: deactivateBlock_undo activateBlock_undo)

theorem undo_scope_witness:
  "active edited_session \<and>
   undoStack (activateBlock plain_dom edited_session 1) = undoStack edited_session \<and>
   undoStack (exitTextEditMode plain_dom edited_session) = [] \<and>
   redoStack (exitTextEditMode plain_dom edited_session) = [] \<and>
   editedBlocks (exitTextEditMode plain_dom edited_session) = []"
proof -
  have a: "active edited_session" by (rule edited_session_facts)
  from undo_scope[of plain_dom edited_session 1] a show ?thesis by simp
qed


end
